theory Spec2Isabelle
  imports Main
begin

section \<open>The analytics store\<close>

text \<open>
  The real-time analytics of the site keep two tables in a document store:
  \<open>pageViews\<close>, an append-only log of view events, and \<open>activeSessions\<close>, one
  liveness record per browser session. Times are \<open>Date.now()\<close> readings, whole
  milliseconds, modelled as \<open>int\<close>. A handler runs at one instant \<open>now\<close>: every
  \<open>Date.now()\<close> of one invocation yields the same reading, which the model takes as
  a parameter.
\<close>

type_synonym doc_id = nat

text \<open>
  A table is the list of its documents in creation order, each with the \<open>_id\<close> the
  store gave it.
\<close>

type_synonym 'a table = "(doc_id \<times> 'a) list"

record pageView =
  path :: string
  pageType :: string
  sessionId :: string
  timestamp :: int

record activeSession =
  sessionId :: string
  currentPath :: string
  lastSeen :: int

record db =
  pageViews :: "pageView table"
  activeSessions :: "activeSession table"
  nextId :: doc_id

datatype outcome = Fulfilled | Rejected

subsection \<open>Configuration constants\<close>

definition DEDUP_WINDOW_MS :: int where
  "DEDUP_WINDOW_MS = 30 * 60 * 1000"

definition SESSION_TIMEOUT_MS :: int where
  "SESSION_TIMEOUT_MS = 2 * 60 * 1000"

definition HEARTBEAT_DEDUP_MS :: int where
  "HEARTBEAT_DEDUP_MS = 10 * 1000"

definition HEARTBEAT_INTERVAL_MS :: int where
  "HEARTBEAT_INTERVAL_MS = 30 * 1000"

definition HEARTBEAT_DEBOUNCE_MS :: int where
  "HEARTBEAT_DEBOUNCE_MS = 5 * 1000"

definition SESSION_ID_KEY :: string where
  "SESSION_ID_KEY = ''markdown_blog_session_id''"

subsection \<open>Store operations\<close>

text \<open>
  \<open>ctx.db.insert\<close> appends a document under a new id, \<open>ctx.db.patch\<close> rewrites the
  fields of the document with the given id, \<open>ctx.db.delete\<close> removes it.
\<close>

definition db_insert :: "doc_id \<Rightarrow> 'a \<Rightarrow> 'a table \<Rightarrow> 'a table" where
  "db_insert i d t = t @ [(i, d)]"

definition db_patch :: "doc_id \<Rightarrow> ('a \<Rightarrow> 'a) \<Rightarrow> 'a table \<Rightarrow> 'a table" where
  "db_patch i f t = map (\<lambda>(j, d). if j = i then (j, f d) else (j, d)) t"

definition db_delete :: "doc_id \<Rightarrow> 'a table \<Rightarrow> 'a table" where
  "db_delete i t = filter (\<lambda>(j, d). j \<noteq> i) t"

text \<open>
  An index query selects the documents that satisfy the index condition, in creation
  order; \<open>.first()\<close> takes the earliest, \<open>.order("desc").first()\<close> the latest,
  \<open>.collect()\<close> all of them.
\<close>

definition query_first :: "('a \<Rightarrow> bool) \<Rightarrow> 'a table \<Rightarrow> (doc_id \<times> 'a) option" where
  "query_first P t = find (\<lambda>(i, d). P d) t"

definition query_desc_first :: "('a \<Rightarrow> bool) \<Rightarrow> 'a table \<Rightarrow> (doc_id \<times> 'a) option" where
  "query_desc_first P t = find (\<lambda>(i, d). P d) (rev t)"

definition query_collect :: "('a \<Rightarrow> bool) \<Rightarrow> 'a table \<Rightarrow> 'a table" where
  "query_collect P t = filter (\<lambda>(i, d). P d) t"

text \<open>
  The ids of a table are pairwise distinct and below the next id to be given out;
  every store reached from the empty one by the mutations below is of this kind.
\<close>

definition wf_table :: "doc_id \<Rightarrow> 'a table \<Rightarrow> bool" where
  "wf_table n t = (distinct (map fst t) \<and> list_all (\<lambda>(i, d). i < n) t)"

definition wf_db :: "db \<Rightarrow> bool" where
  "wf_db d = (wf_table (nextId d) (pageViews d) \<and> wf_table (nextId d) (activeSessions d))"

definition empty_db :: db where
  "empty_db = \<lparr>pageViews = [], activeSessions = [], nextId = 0\<rparr>"

section \<open>Backend mutations\<close>

subsection \<open>recordPageView\<close>

text \<open>
  The lookup of \<open>recordPageView\<close>: the latest view event of the index
  \<open>by_session_path\<close> for this session and path.
\<close>

definition recentView_of :: "string \<Rightarrow> string \<Rightarrow> db \<Rightarrow> (doc_id \<times> pageView) option" where
  "recentView_of a_sessionId a_path d =
     query_desc_first (\<lambda>v. pageView.sessionId v = a_sessionId \<and> path v = a_path) (pageViews d)"

definition recordPageView :: "int \<Rightarrow> string \<Rightarrow> string \<Rightarrow> string \<Rightarrow> db \<Rightarrow> db" where
  "recordPageView now a_path a_pageType a_sessionId d =
     (let dedupCutoff = now - DEDUP_WINDOW_MS;
          recentView = recentView_of a_sessionId a_path d
      in if (case recentView of None \<Rightarrow> False | Some (i, v) \<Rightarrow> timestamp v > dedupCutoff)
         then d
         else d\<lparr>pageViews :=
                  db_insert (nextId d)
                    \<lparr>path = a_path, pageType = a_pageType, sessionId = a_sessionId,
                     timestamp = now\<rparr>
                    (pageViews d),
                nextId := Suc (nextId d)\<rparr>)"

text \<open>Calls \<open>(now, path, pageType, sessionId)\<close> executed one after the other.\<close>

fun recordPageView_seq :: "(int \<times> string \<times> string \<times> string) list \<Rightarrow> db \<Rightarrow> db" where
  "recordPageView_seq [] d = d"
| "recordPageView_seq ((now, a_path, a_pageType, a_sessionId) # cs) d =
     recordPageView_seq cs (recordPageView now a_path a_pageType a_sessionId d)"

definition views_of :: "string \<Rightarrow> string \<Rightarrow> db \<Rightarrow> pageView table" where
  "views_of a_sessionId a_path d =
     query_collect (\<lambda>v. pageView.sessionId v = a_sessionId \<and> path v = a_path) (pageViews d)"

subsection \<open>heartbeat\<close>

definition session_of :: "string \<Rightarrow> db \<Rightarrow> (doc_id \<times> activeSession) option" where
  "session_of a_sessionId d =
     query_first (\<lambda>s. activeSession.sessionId s = a_sessionId) (activeSessions d)"

definition heartbeat :: "int \<Rightarrow> string \<Rightarrow> string \<Rightarrow> db \<Rightarrow> db" where
  "heartbeat now a_sessionId a_currentPath d =
     (case session_of a_sessionId d of
        Some (existing_id, existingSession) \<Rightarrow>
          if currentPath existingSession = a_currentPath
             \<and> now - lastSeen existingSession < HEARTBEAT_DEDUP_MS
          then d
          else d\<lparr>activeSessions :=
                   db_patch existing_id
                     (\<lambda>s. s\<lparr>currentPath := a_currentPath, lastSeen := now\<rparr>)
                     (activeSessions d)\<rparr>
      | None \<Rightarrow>
          d\<lparr>activeSessions :=
               db_insert (nextId d)
                 \<lparr>sessionId = a_sessionId, currentPath = a_currentPath, lastSeen = now\<rparr>
                 (activeSessions d),
             nextId := Suc (nextId d)\<rparr>)"

text \<open>Calls \<open>(now, sessionId, currentPath)\<close> executed one after the other.\<close>

fun heartbeat_seq :: "(int \<times> string \<times> string) list \<Rightarrow> db \<Rightarrow> db" where
  "heartbeat_seq [] d = d"
| "heartbeat_seq ((now, a_sessionId, a_currentPath) # cs) d =
     heartbeat_seq cs (heartbeat now a_sessionId a_currentPath d)"

definition sessions_of :: "string \<Rightarrow> db \<Rightarrow> activeSession table" where
  "sessions_of a_sessionId d =
     query_collect (\<lambda>s. activeSession.sessionId s = a_sessionId) (activeSessions d)"

definition unique_sessions :: "db \<Rightarrow> bool" where
  "unique_sessions d = distinct (map (\<lambda>(i, s). activeSession.sessionId s) (activeSessions d))"

subsection \<open>cleanupStaleSessions\<close>

text \<open>
  A delete is a call into the store and may be rejected; \<open>fails\<close> says for which
  documents the store rejects it. A rejected delete leaves the table as it was.
  \<open>staleSessions.map\<close> starts one delete per stale session before anything is
  awaited, so every delete runs whatever the others do; \<open>Promise.all\<close> is rejected
  when one of them is. The handler has no \<open>try\<close> around a delete and none around
  \<open>Promise.all\<close>, so a rejection ends the handler rejected. The handler is a mutation:
  it runs as one transaction, whose writes are committed together when it ends
  fulfilled and are all discarded when it ends rejected. The store after a rejected
  run is therefore the store before it. \<open>.collect()\<close> lists the stale sessions in the
  order of the index \<open>by_lastSeen\<close>; the model lists them in creation order, and the
  table the deletes leave depends on the set of their ids only.
\<close>

definition try_delete :: "(doc_id \<Rightarrow> bool) \<Rightarrow> doc_id \<Rightarrow> 'a table \<Rightarrow> outcome \<times> 'a table" where
  "try_delete fails i t = (if fails i then (Rejected, t) else (Fulfilled, db_delete i t))"

fun delete_each :: "(doc_id \<Rightarrow> bool) \<Rightarrow> doc_id list \<Rightarrow> 'a table \<Rightarrow> outcome list \<times> 'a table" where
  "delete_each fails [] t = ([], t)"
| "delete_each fails (i # is) t =
     (case try_delete fails i t of
        (r, t') \<Rightarrow> (case delete_each fails is t' of (rs, t'') \<Rightarrow> (r # rs, t'')))"

definition promise_all :: "outcome list \<Rightarrow> outcome" where
  "promise_all rs = (if list_ex (\<lambda>r. r = Rejected) rs then Rejected else Fulfilled)"

definition cleanupStaleSessions :: "(doc_id \<Rightarrow> bool) \<Rightarrow> int \<Rightarrow> db \<Rightarrow> outcome \<times> db" where
  "cleanupStaleSessions fails now d =
     (let cutoff = now - SESSION_TIMEOUT_MS;
          staleSessions = query_collect (\<lambda>s. lastSeen s < cutoff) (activeSessions d)
      in case delete_each fails (map fst staleSessions) (activeSessions d) of
           (rs, t) \<Rightarrow>
             (case promise_all rs of
                Fulfilled \<Rightarrow> (Fulfilled, d\<lparr>activeSessions := t\<rparr>)
              | Rejected \<Rightarrow> (Rejected, d)))"

definition no_failure :: "doc_id \<Rightarrow> bool" where
  "no_failure i = False"

section \<open>Client-side tracking\<close>

subsection \<open>getSessionId\<close>

text \<open>
  \<open>localStorage\<close> maps keys to strings; \<open>getItem\<close> of a missing key is \<open>null\<close>.
  A \<open>null\<close> and an empty string are both falsy. \<open>generated\<close> is the identifier
  \<open>generateSessionId()\<close> returns when this call invokes it.
\<close>

type_synonym localStorage = "string \<rightharpoonup> string"

definition falsy :: "string option \<Rightarrow> bool" where
  "falsy x = (case x of None \<Rightarrow> True | Some s \<Rightarrow> s = [])"

definition getSessionId :: "string \<Rightarrow> localStorage \<Rightarrow> string \<times> localStorage" where
  "getSessionId generated ls =
     (let sessionId = ls SESSION_ID_KEY
      in if falsy sessionId
         then (generated, ls(SESSION_ID_KEY \<mapsto> generated))
         else (the sessionId, ls))"

text \<open>
  Successive calls in one browser; \<open>gs\<close> lists what \<open>generateSessionId()\<close> would
  return at each of them.
\<close>

fun getSessionId_seq :: "string list \<Rightarrow> localStorage \<Rightarrow> string list \<times> localStorage" where
  "getSessionId_seq [] ls = ([], ls)"
| "getSessionId_seq (g # gs) ls =
     (case getSessionId g ls of
        (a, ls1) \<Rightarrow> (case getSessionId_seq gs ls1 of (as, ls2) \<Rightarrow> (a # as, ls2)))"

subsection \<open>sendHeartbeat\<close>

text \<open>
  The refs of the tracking hook. \<open>sendHeartbeat\<close> runs up to its \<open>await\<close> in one
  piece: it either returns early or marks the call pending and issues the mutation
  with \<open>(sessionId, currentPath)\<close>. \<open>sendHeartbeat_settled\<close> is the rest, run when the
  mutation has settled: \<open>catch\<close> swallows a rejection and \<open>finally\<close> clears the
  pending mark, so the promise of \<open>sendHeartbeat\<close> is fulfilled either way.
\<close>

record tracking_refs =
  sessionIdRef :: "string option"
  isHeartbeatPending :: bool
  lastHeartbeatTime :: int
  lastHeartbeatPath :: "string option"

definition sendHeartbeat ::
  "int \<Rightarrow> string \<Rightarrow> tracking_refs \<Rightarrow> (string \<times> string) option \<times> tracking_refs" where
  "sendHeartbeat now a_path refs =
     (if falsy (sessionIdRef refs) then (None, refs)
      else if isHeartbeatPending refs then (None, refs)
      else if lastHeartbeatPath refs = Some a_path
              \<and> now - lastHeartbeatTime refs < HEARTBEAT_DEBOUNCE_MS
      then (None, refs)
      else (Some (the (sessionIdRef refs), a_path),
            refs\<lparr>isHeartbeatPending := True,
                 lastHeartbeatTime := now,
                 lastHeartbeatPath := Some a_path\<rparr>))"

definition sendHeartbeat_settled :: "outcome \<Rightarrow> tracking_refs \<Rightarrow> outcome \<times> tracking_refs" where
  "sendHeartbeat_settled mutation_result refs =
     (case mutation_result of
        Fulfilled \<Rightarrow> (Fulfilled, refs\<lparr>isHeartbeatPending := False\<rparr>)
      | Rejected \<Rightarrow> (Fulfilled, refs\<lparr>isHeartbeatPending := False\<rparr>))"

definition issues_call :: "int \<Rightarrow> string \<Rightarrow> tracking_refs \<Rightarrow> bool" where
  "issues_call now a_path refs = (fst (sendHeartbeat now a_path refs) \<noteq> None)"

section \<open>Properties of recordPageView\<close>

lemma query_desc_first_append:
  "query_desc_first P (t @ [(i, d)]) = (if P d then Some (i, d) else query_desc_first P t)"
  by (simp add: query_desc_first_def)

text \<open>
  The lookup of the handler and the rows of the table: \<open>.order("desc").first()\<close>
  finds nothing when no row satisfies the index condition, and otherwise the last
  of the rows that do.
\<close>

lemma query_desc_first_collect:
  "query_desc_first P t =
     (if query_collect P t = [] then None else Some (last (query_collect P t)))"
  unfolding query_desc_first_def query_collect_def
  by (induction t rule: rev_induct) auto

lemma recentView_of_views_of:
  "recentView_of s p d =
     (if views_of s p d = [] then None else Some (last (views_of s p d)))"
  by (simp add: recentView_of_def views_of_def query_desc_first_collect)

lemma recordPageView_inserts:
  assumes "\<forall>j w. recentView_of s p d = Some (j, w) \<longrightarrow> timestamp w \<le> now - DEDUP_WINDOW_MS"
  shows "recordPageView now p pt s d =
           d\<lparr>pageViews := pageViews d @
                [(nextId d, \<lparr>path = p, pageType = pt, sessionId = s, timestamp = now\<rparr>)],
             nextId := Suc (nextId d)\<rparr>"
  using assms by (auto simp: recordPageView_def db_insert_def split: option.splits)

lemma recordPageView_inserts_rows:
  assumes "views_of s p d = []
         \<or> timestamp (snd (last (views_of s p d))) \<le> now - DEDUP_WINDOW_MS"
  shows "recordPageView now p pt s d =
           d\<lparr>pageViews := pageViews d @
                [(nextId d, \<lparr>path = p, pageType = pt, sessionId = s, timestamp = now\<rparr>)],
             nextId := Suc (nextId d)\<rparr>"
proof (rule recordPageView_inserts, intro allI impI)
  fix j w
  assume "recentView_of s p d = Some (j, w)"
  then have "views_of s p d \<noteq> []" "last (views_of s p d) = (j, w)"
    by (simp_all add: recentView_of_views_of split: if_splits)
  with assms show "timestamp w \<le> now - DEDUP_WINDOW_MS" by simp
qed

lemma recordPageView_duplicate:
  assumes "recentView_of s p d = Some (i, v)" and "now - DEDUP_WINDOW_MS < timestamp v"
  shows "recordPageView now p pt s d = d"
  using assms by (simp add: recordPageView_def)

lemma recentView_of_inserted:
  "recentView_of s p
     (d\<lparr>pageViews := pageViews d @
          [(i, \<lparr>path = p, pageType = pt, sessionId = s, timestamp = now\<rparr>)],
        nextId := n\<rparr>)
   = Some (i, \<lparr>path = p, pageType = pt, sessionId = s, timestamp = now\<rparr>)"
  by (simp add: recentView_of_def query_desc_first_append)

lemma recordPageView_seq_duplicates:
  assumes "recentView_of s p d = Some (i, v)"
      and "\<forall>(t, pt') \<in> set later. t - DEDUP_WINDOW_MS < timestamp v"
  shows "recordPageView_seq (map (\<lambda>(t, pt'). (t, p, pt', s)) later) d = d"
  using assms
proof (induction later)
  case Nil
  then show ?case by simp
next
  case (Cons c later)
  obtain t pt' where c: "c = (t, pt')" by (cases c)
  from Cons.prems c have "recordPageView t p pt' s d = d"
    by (auto intro: recordPageView_duplicate)
  with Cons c show ?case by simp
qed

lemma views_of_inserted:
  "views_of s p (d\<lparr>pageViews := pageViews d @ [(i, \<lparr>path = p, pageType = pt, sessionId = s, timestamp = now\<rparr>)],
        nextId := n\<rparr>)
   = views_of s p d @ [(i, \<lparr>path = p, pageType = pt, sessionId = s, timestamp = now\<rparr>)]"
  by (simp add: views_of_def query_collect_def)

lemma recordPageView_seq_window:
  assumes rows: "views_of s p d = []
         \<or> timestamp (snd (last (views_of s p d))) \<le> t0 - DEDUP_WINDOW_MS"
      and window: "\<forall>(t, pt') \<in> set later. t - t0 < DEDUP_WINDOW_MS"
  shows "recordPageView_seq (map (\<lambda>(t, pt'). (t, p, pt', s)) ((t0, pt) # later)) d =
           d\<lparr>pageViews := pageViews d @
                [(nextId d, \<lparr>path = p, pageType = pt, sessionId = s, timestamp = t0\<rparr>)],
             nextId := Suc (nextId d)\<rparr>"
proof -
  let ?e = "\<lparr>path = p, pageType = pt, sessionId = s, timestamp = t0\<rparr>"
  let ?d1 = "d\<lparr>pageViews := pageViews d @ [(nextId d, ?e)], nextId := Suc (nextId d)\<rparr>"
  have step: "recordPageView t0 p pt s d = ?d1"
    using rows by (rule recordPageView_inserts_rows)
  have recent: "recentView_of s p ?d1 = Some (nextId d, ?e)"
    by (rule recentView_of_inserted)
  have "\<forall>(t, pt') \<in> set later. t - DEDUP_WINDOW_MS < timestamp ?e"
    using window by auto
  with recent have rest: "recordPageView_seq (map (\<lambda>(t, pt'). (t, p, pt', s)) later) ?d1 = ?d1"
    by (rule recordPageView_seq_duplicates)
  show ?thesis
    using step rest by simp
qed

text \<open>
  C8. The duplicate test is strict. When the store holds views of the session and
  path and the latest of them has a timestamp equal to the cutoff
  \<open>now - DEDUP_WINDOW_MS\<close>, whatever other sessions and paths the store holds, the call
  is not a duplicate and appends a new view event. So a call at \<open>t0\<close> that inserts
  (the store holds no view of the session and path, or the latest is at or before the
  cutoff of \<open>t0\<close>), followed by a call exactly thirty minutes later, adds two view
  events of the session and path.
\<close>

theorem recordPageView_exact_boundary_inserts:
  "(views_of s p d \<noteq> []
      \<and> timestamp (snd (last (views_of s p d))) = now - DEDUP_WINDOW_MS \<longrightarrow>
      recordPageView now p pt s d =
        d\<lparr>pageViews := pageViews d @
             [(nextId d, \<lparr>path = p, pageType = pt, sessionId = s, timestamp = now\<rparr>)],
          nextId := Suc (nextId d)\<rparr>
      \<and> views_of s p (recordPageView now p pt s d) =
          views_of s p d @
            [(nextId d, \<lparr>path = p, pageType = pt, sessionId = s, timestamp = now\<rparr>)])
   \<and> (views_of s p d = []
        \<or> timestamp (snd (last (views_of s p d))) \<le> t0 - DEDUP_WINDOW_MS \<longrightarrow>
      pageViews (recordPageView (t0 + DEDUP_WINDOW_MS) p pt' s (recordPageView t0 p pt s d)) =
        pageViews d @
          [(nextId d, \<lparr>path = p, pageType = pt, sessionId = s, timestamp = t0\<rparr>),
           (Suc (nextId d),
            \<lparr>path = p, pageType = pt', sessionId = s, timestamp = t0 + DEDUP_WINDOW_MS\<rparr>)]
      \<and> views_of s p
          (recordPageView (t0 + DEDUP_WINDOW_MS) p pt' s (recordPageView t0 p pt s d)) =
        views_of s p d @
          [(nextId d, \<lparr>path = p, pageType = pt, sessionId = s, timestamp = t0\<rparr>),
           (Suc (nextId d),
            \<lparr>path = p, pageType = pt', sessionId = s, timestamp = t0 + DEDUP_WINDOW_MS\<rparr>)])"
proof (intro conjI impI)
  assume a: "views_of s p d \<noteq> []
      \<and> timestamp (snd (last (views_of s p d))) = now - DEDUP_WINDOW_MS"
  then have "views_of s p d = []
         \<or> timestamp (snd (last (views_of s p d))) \<le> now - DEDUP_WINDOW_MS"
    by simp
  then have step: "recordPageView now p pt s d =
        d\<lparr>pageViews := pageViews d @
             [(nextId d, \<lparr>path = p, pageType = pt, sessionId = s, timestamp = now\<rparr>)],
          nextId := Suc (nextId d)\<rparr>"
    by (rule recordPageView_inserts_rows)
  then show "recordPageView now p pt s d =
        d\<lparr>pageViews := pageViews d @
             [(nextId d, \<lparr>path = p, pageType = pt, sessionId = s, timestamp = now\<rparr>)],
          nextId := Suc (nextId d)\<rparr>" .
  show "views_of s p (recordPageView now p pt s d) =
          views_of s p d @
            [(nextId d, \<lparr>path = p, pageType = pt, sessionId = s, timestamp = now\<rparr>)]"
    unfolding step by (rule views_of_inserted)
next
  assume b: "views_of s p d = []
        \<or> timestamp (snd (last (views_of s p d))) \<le> t0 - DEDUP_WINDOW_MS"
  let ?e = "\<lparr>path = p, pageType = pt, sessionId = s, timestamp = t0\<rparr>"
  let ?d1 = "d\<lparr>pageViews := pageViews d @ [(nextId d, ?e)], nextId := Suc (nextId d)\<rparr>"
  have step1: "recordPageView t0 p pt s d = ?d1"
    using b by (rule recordPageView_inserts_rows)
  have v1: "views_of s p ?d1 = views_of s p d @ [(nextId d, ?e)]"
    by (rule views_of_inserted)
  then have "views_of s p ?d1 = []
      \<or> timestamp (snd (last (views_of s p ?d1))) \<le> (t0 + DEDUP_WINDOW_MS) - DEDUP_WINDOW_MS"
    by simp
  then have step2: "recordPageView (t0 + DEDUP_WINDOW_MS) p pt' s ?d1 =
      ?d1\<lparr>pageViews := pageViews ?d1 @
            [(nextId ?d1, \<lparr>path = p, pageType = pt', sessionId = s,
                            timestamp = t0 + DEDUP_WINDOW_MS\<rparr>)],
          nextId := Suc (nextId ?d1)\<rparr>"
    by (rule recordPageView_inserts_rows)
  show "pageViews (recordPageView (t0 + DEDUP_WINDOW_MS) p pt' s (recordPageView t0 p pt s d)) =
        pageViews d @
          [(nextId d, \<lparr>path = p, pageType = pt, sessionId = s, timestamp = t0\<rparr>),
           (Suc (nextId d),
            \<lparr>path = p, pageType = pt', sessionId = s, timestamp = t0 + DEDUP_WINDOW_MS\<rparr>)]"
    unfolding step1 step2 by simp
  show "views_of s p
          (recordPageView (t0 + DEDUP_WINDOW_MS) p pt' s (recordPageView t0 p pt s d)) =
        views_of s p d @
          [(nextId d, \<lparr>path = p, pageType = pt, sessionId = s, timestamp = t0\<rparr>),
           (Suc (nextId d),
            \<lparr>path = p, pageType = pt', sessionId = s, timestamp = t0 + DEDUP_WINDOW_MS\<rparr>)]"
    unfolding step1 step2 by (simp add: views_of_def query_collect_def)
qed

theorem recordPageView_exact_boundary_inserts_witness:
  "views_of ''S1'' ''/docs''
      \<lparr>pageViews =
         [(0, \<lparr>path = ''/docs'', pageType = ''page'', sessionId = ''S1'', timestamp = 1000\<rparr>),
          (1, \<lparr>path = ''/docs'', pageType = ''page'', sessionId = ''S2'',
               timestamp = 1500000\<rparr>)],
       activeSessions = [], nextId = 2\<rparr>
     = [(0, \<lparr>path = ''/docs'', pageType = ''page'', sessionId = ''S1'', timestamp = 1000\<rparr>)]
   \<and> (1000::int) = 1801000 - DEDUP_WINDOW_MS
   \<and> recordPageView 1801000 ''/docs'' ''page'' ''S1''
      \<lparr>pageViews =
         [(0, \<lparr>path = ''/docs'', pageType = ''page'', sessionId = ''S1'', timestamp = 1000\<rparr>),
          (1, \<lparr>path = ''/docs'', pageType = ''page'', sessionId = ''S2'',
               timestamp = 1500000\<rparr>)],
       activeSessions = [], nextId = 2\<rparr>
     = \<lparr>pageViews =
          [(0, \<lparr>path = ''/docs'', pageType = ''page'', sessionId = ''S1'', timestamp = 1000\<rparr>),
           (1, \<lparr>path = ''/docs'', pageType = ''page'', sessionId = ''S2'',
                timestamp = 1500000\<rparr>),
           (2, \<lparr>path = ''/docs'', pageType = ''page'', sessionId = ''S1'',
                timestamp = 1801000\<rparr>)],
        activeSessions = [], nextId = 3\<rparr>
   \<and> views_of ''S1'' ''/docs''
        (recordPageView 3601000 ''/docs'' ''blog'' ''S1''
          (recordPageView 1801000 ''/docs'' ''page'' ''S1''
            \<lparr>pageViews =
               [(0, \<lparr>path = ''/docs'', pageType = ''page'', sessionId = ''S1'',
                    timestamp = 1000\<rparr>),
                (1, \<lparr>path = ''/docs'', pageType = ''page'', sessionId = ''S2'',
                    timestamp = 1500000\<rparr>)],
             activeSessions = [], nextId = 2\<rparr>))
     = [(0, \<lparr>path = ''/docs'', pageType = ''page'', sessionId = ''S1'', timestamp = 1000\<rparr>),
        (2, \<lparr>path = ''/docs'', pageType = ''page'', sessionId = ''S1'', timestamp = 1801000\<rparr>),
        (3, \<lparr>path = ''/docs'', pageType = ''blog'', sessionId = ''S1'', timestamp = 3601000\<rparr>)]"
proof -
  let ?v = "\<lparr>path = ''/docs'', pageType = ''page'', sessionId = ''S1'', timestamp = 1000\<rparr>"
  let ?u = "\<lparr>path = ''/docs'', pageType = ''page'', sessionId = ''S2'', timestamp = 1500000\<rparr>"
  let ?d = "\<lparr>pageViews = [(0, ?v), (1, ?u)], activeSessions = [], nextId = 2\<rparr>"
  have h0: "views_of ''S1'' ''/docs'' ?d = [(0, ?v)]"
    by (simp add: views_of_def query_collect_def)
  have h1: "views_of ''S1'' ''/docs'' ?d \<noteq> []
      \<and> timestamp (snd (last (views_of ''S1'' ''/docs'' ?d))) = 1801000 - DEDUP_WINDOW_MS"
    by (simp add: views_of_def query_collect_def DEDUP_WINDOW_MS_def)
  have h2: "views_of ''S1'' ''/docs'' ?d = []
      \<or> timestamp (snd (last (views_of ''S1'' ''/docs'' ?d))) \<le> 1801000 - DEDUP_WINDOW_MS"
    by (simp add: views_of_def query_collect_def DEDUP_WINDOW_MS_def)
  have w: "(1000::int) = 1801000 - DEDUP_WINDOW_MS" "1801000 + DEDUP_WINDOW_MS = 3601000"
    by (simp_all add: DEDUP_WINDOW_MS_def)
  note T = recordPageView_exact_boundary_inserts
    [where s = "''S1''" and p = "''/docs''" and d = ?d
       and now = 1801000 and pt = "''page''" and ?t0.0 = 1801000 and pt' = "''blog''"]
  from T h1 have "recordPageView 1801000 ''/docs'' ''page'' ''S1'' ?d =
      ?d\<lparr>pageViews := pageViews ?d @
            [(nextId ?d, \<lparr>path = ''/docs'', pageType = ''page'', sessionId = ''S1'',
                           timestamp = 1801000\<rparr>)],
         nextId := Suc (nextId ?d)\<rparr>"
    by blast
  then have c1: "recordPageView 1801000 ''/docs'' ''page'' ''S1'' ?d
     = \<lparr>pageViews =
          [(0, ?v), (1, ?u),
           (2, \<lparr>path = ''/docs'', pageType = ''page'', sessionId = ''S1'',
                timestamp = 1801000\<rparr>)],
        activeSessions = [], nextId = 3\<rparr>"
    by (simp add: numeral_3_eq_3 numeral_2_eq_2)
  from T h2 have "views_of ''S1'' ''/docs''
        (recordPageView (1801000 + DEDUP_WINDOW_MS) ''/docs'' ''blog'' ''S1''
          (recordPageView 1801000 ''/docs'' ''page'' ''S1'' ?d)) =
      views_of ''S1'' ''/docs'' ?d @
        [(nextId ?d, \<lparr>path = ''/docs'', pageType = ''page'', sessionId = ''S1'',
                       timestamp = 1801000\<rparr>),
         (Suc (nextId ?d),
          \<lparr>path = ''/docs'', pageType = ''blog'', sessionId = ''S1'',
           timestamp = 1801000 + DEDUP_WINDOW_MS\<rparr>)]"
    by blast
  then have c2: "views_of ''S1'' ''/docs''
        (recordPageView 3601000 ''/docs'' ''blog'' ''S1''
          (recordPageView 1801000 ''/docs'' ''page'' ''S1'' ?d))
     = [(0, ?v),
        (2, \<lparr>path = ''/docs'', pageType = ''page'', sessionId = ''S1'', timestamp = 1801000\<rparr>),
        (3, \<lparr>path = ''/docs'', pageType = ''blog'', sessionId = ''S1'', timestamp = 3601000\<rparr>)]"
    by (simp add: views_of_def query_collect_def w numeral_3_eq_3 numeral_2_eq_2)
  from h0 w(1) c1 c2 show ?thesis by blast
qed

text \<open>
  C1. View dedup idempotence. On a store that holds no view of the session and path,
  whatever views of other sessions and paths it holds, a call of \<open>recordPageView\<close> at
  \<open>t0\<close> followed by any calls for the same session and path at times \<open>t\<close> with
  \<open>t - t0 < DEDUP_WINDOW_MS\<close> leaves exactly one view event of the session and path,
  the one of the first call: the first call appends it, every later call writes
  nothing.
\<close>

theorem recordPageView_dedup_idempotent:
  assumes none: "views_of s p d = []"
      and window: "\<forall>(t, pt') \<in> set later. t - t0 < DEDUP_WINDOW_MS"
  shows "views_of s p
           (recordPageView_seq (map (\<lambda>(t, pt'). (t, p, pt', s)) ((t0, pt) # later)) d) =
           [(nextId d, \<lparr>path = p, pageType = pt, sessionId = s, timestamp = t0\<rparr>)]
       \<and> length (views_of s p
            (recordPageView_seq (map (\<lambda>(t, pt'). (t, p, pt', s)) ((t0, pt) # later)) d)) = 1
       \<and> recordPageView_seq (map (\<lambda>(t, pt'). (t, p, pt', s)) ((t0, pt) # later)) d =
           d\<lparr>pageViews := pageViews d @
                [(nextId d, \<lparr>path = p, pageType = pt, sessionId = s, timestamp = t0\<rparr>)],
             nextId := Suc (nextId d)\<rparr>
       \<and> recordPageView_seq (map (\<lambda>(t, pt'). (t, p, pt', s)) ((t0, pt) # later)) d =
           recordPageView t0 p pt s d"
proof -
  let ?e = "\<lparr>path = p, pageType = pt, sessionId = s, timestamp = t0\<rparr>"
  let ?d1 = "d\<lparr>pageViews := pageViews d @ [(nextId d, ?e)], nextId := Suc (nextId d)\<rparr>"
  from none have rows: "views_of s p d = []
         \<or> timestamp (snd (last (views_of s p d))) \<le> t0 - DEDUP_WINDOW_MS"
    by simp
  from rows window
  have all: "recordPageView_seq (map (\<lambda>(t, pt'). (t, p, pt', s)) ((t0, pt) # later)) d = ?d1"
    by (rule recordPageView_seq_window)
  from rows have first: "recordPageView t0 p pt s d = ?d1"
    by (rule recordPageView_inserts_rows)
  have "views_of s p ?d1 = views_of s p d @ [(nextId d, ?e)]"
    by (rule views_of_inserted)
  with none have one: "views_of s p ?d1 = [(nextId d, ?e)]" by simp
  show ?thesis
    unfolding all first using one by simp
qed

theorem recordPageView_dedup_idempotent_witness:
  "views_of ''S1'' ''/docs''
     \<lparr>pageViews =
        [(0, \<lparr>path = ''/docs'', pageType = ''page'', sessionId = ''S2'', timestamp = 0\<rparr>),
         (1, \<lparr>path = ''/about'', pageType = ''page'', sessionId = ''S1'', timestamp = 500\<rparr>)],
      activeSessions = [], nextId = 2\<rparr> = []
   \<and> (600000::int) - 1000 < DEDUP_WINDOW_MS
   \<and> (1800999::int) - 1000 < DEDUP_WINDOW_MS
   \<and> recordPageView_seq
        [(1000, ''/docs'', ''page'', ''S1''), (600000, ''/docs'', ''page'', ''S1''),
         (1800999, ''/docs'', ''blog'', ''S1'')]
        \<lparr>pageViews =
           [(0, \<lparr>path = ''/docs'', pageType = ''page'', sessionId = ''S2'', timestamp = 0\<rparr>),
            (1, \<lparr>path = ''/about'', pageType = ''page'', sessionId = ''S1'',
                 timestamp = 500\<rparr>)],
         activeSessions = [], nextId = 2\<rparr>
      = \<lparr>pageViews =
           [(0, \<lparr>path = ''/docs'', pageType = ''page'', sessionId = ''S2'', timestamp = 0\<rparr>),
            (1, \<lparr>path = ''/about'', pageType = ''page'', sessionId = ''S1'', timestamp = 500\<rparr>),
            (2, \<lparr>path = ''/docs'', pageType = ''page'', sessionId = ''S1'',
                 timestamp = 1000\<rparr>)],
         activeSessions = [], nextId = 3\<rparr>
   \<and> views_of ''S1'' ''/docs''
        (recordPageView_seq
          [(1000, ''/docs'', ''page'', ''S1''), (600000, ''/docs'', ''page'', ''S1''),
           (1800999, ''/docs'', ''blog'', ''S1'')]
          \<lparr>pageViews =
             [(0, \<lparr>path = ''/docs'', pageType = ''page'', sessionId = ''S2'', timestamp = 0\<rparr>),
              (1, \<lparr>path = ''/about'', pageType = ''page'', sessionId = ''S1'',
                   timestamp = 500\<rparr>)],
           activeSessions = [], nextId = 2\<rparr>)
      = [(2, \<lparr>path = ''/docs'', pageType = ''page'', sessionId = ''S1'', timestamp = 1000\<rparr>)]"
proof -
  let ?a = "\<lparr>path = ''/docs'', pageType = ''page'', sessionId = ''S2'', timestamp = 0\<rparr>"
  let ?b = "\<lparr>path = ''/about'', pageType = ''page'', sessionId = ''S1'', timestamp = 500\<rparr>"
  let ?d = "\<lparr>pageViews = [(0, ?a), (1, ?b)], activeSessions = [], nextId = 2\<rparr>"
  have h1: "views_of ''S1'' ''/docs'' ?d = []"
    by (simp add: views_of_def query_collect_def)
  have h2: "\<forall>(t, pt') \<in> set [(600000, ''page''), (1800999, ''blog'')].
              t - 1000 < DEDUP_WINDOW_MS"
    by (simp add: DEDUP_WINDOW_MS_def)
  have w: "(600000::int) - 1000 < DEDUP_WINDOW_MS" "(1800999::int) - 1000 < DEDUP_WINDOW_MS"
    by (simp_all add: DEDUP_WINDOW_MS_def)
  note T = recordPageView_dedup_idempotent [OF h1 h2, where pt = "''page''"]
  have c1: "recordPageView_seq
        [(1000, ''/docs'', ''page'', ''S1''), (600000, ''/docs'', ''page'', ''S1''),
         (1800999, ''/docs'', ''blog'', ''S1'')] ?d
      = \<lparr>pageViews =
           [(0, ?a), (1, ?b),
            (2, \<lparr>path = ''/docs'', pageType = ''page'', sessionId = ''S1'',
                 timestamp = 1000\<rparr>)],
         activeSessions = [], nextId = 3\<rparr>"
    using T [THEN conjunct2, THEN conjunct2, THEN conjunct1]
    by (simp add: numeral_3_eq_3 numeral_2_eq_2)
  have c2: "views_of ''S1'' ''/docs''
        (recordPageView_seq
          [(1000, ''/docs'', ''page'', ''S1''), (600000, ''/docs'', ''page'', ''S1''),
           (1800999, ''/docs'', ''blog'', ''S1'')] ?d)
      = [(2, \<lparr>path = ''/docs'', pageType = ''page'', sessionId = ''S1'', timestamp = 1000\<rparr>)]"
    using T [THEN conjunct1] by (simp add: numeral_2_eq_2)
  from h1 w c1 c2 show ?thesis by blast
qed

text \<open>
  C6. Window boundary. A call of \<open>recordPageView\<close> at \<open>t0\<close> that inserts, followed
  by a call for the same session and path at \<open>t0 + DEDUP_WINDOW_MS + eps\<close> with
  \<open>eps > 0\<close> and nothing in between, appends two view events, one per call.
\<close>

theorem recordPageView_outside_window_inserts:
  assumes first: "\<forall>j w. recentView_of s p d = Some (j, w) \<longrightarrow> timestamp w \<le> t0 - DEDUP_WINDOW_MS"
      and eps: "0 < eps"
  shows "recordPageView (t0 + DEDUP_WINDOW_MS + eps) p pt' s (recordPageView t0 p pt s d) =
           d\<lparr>pageViews := pageViews d @
                [(nextId d, \<lparr>path = p, pageType = pt, sessionId = s, timestamp = t0\<rparr>),
                 (Suc (nextId d),
                  \<lparr>path = p, pageType = pt', sessionId = s,
                   timestamp = t0 + DEDUP_WINDOW_MS + eps\<rparr>)],
             nextId := Suc (Suc (nextId d))\<rparr>
         \<and> views_of s p
              (recordPageView (t0 + DEDUP_WINDOW_MS + eps) p pt' s (recordPageView t0 p pt s d)) =
           views_of s p d @
             [(nextId d, \<lparr>path = p, pageType = pt, sessionId = s, timestamp = t0\<rparr>),
              (Suc (nextId d),
               \<lparr>path = p, pageType = pt', sessionId = s,
                timestamp = t0 + DEDUP_WINDOW_MS + eps\<rparr>)]"
proof -
  let ?e = "\<lparr>path = p, pageType = pt, sessionId = s, timestamp = t0\<rparr>"
  let ?d1 = "d\<lparr>pageViews := pageViews d @ [(nextId d, ?e)], nextId := Suc (nextId d)\<rparr>"
  have step: "recordPageView t0 p pt s d = ?d1"
    using first by (rule recordPageView_inserts)
  have recent: "recentView_of s p ?d1 = Some (nextId d, ?e)"
    by (rule recentView_of_inserted)
  have old: "\<forall>j w. recentView_of s p ?d1 = Some (j, w) \<longrightarrow>
               timestamp w \<le> (t0 + DEDUP_WINDOW_MS + eps) - DEDUP_WINDOW_MS"
    unfolding recent using eps by simp
  have second: "recordPageView (t0 + DEDUP_WINDOW_MS + eps) p pt' s ?d1 =
      ?d1\<lparr>pageViews := pageViews ?d1 @
            [(nextId ?d1, \<lparr>path = p, pageType = pt', sessionId = s,
                            timestamp = t0 + DEDUP_WINDOW_MS + eps\<rparr>)],
          nextId := Suc (nextId ?d1)\<rparr>"
    using old by (rule recordPageView_inserts)
  show ?thesis
    unfolding step second by (simp add: views_of_def query_collect_def)
qed

theorem recordPageView_outside_window_inserts_witness:
  "recentView_of ''S1'' ''/docs'' empty_db = None
   \<and> (0::int) < 60000
   \<and> recordPageView (0 + DEDUP_WINDOW_MS + 60000) ''/docs'' ''page'' ''S1''
        (recordPageView 0 ''/docs'' ''page'' ''S1'' empty_db)
      = \<lparr>pageViews =
           [(0, \<lparr>path = ''/docs'', pageType = ''page'', sessionId = ''S1'', timestamp = 0\<rparr>),
            (1, \<lparr>path = ''/docs'', pageType = ''page'', sessionId = ''S1'',
                 timestamp = 1860000\<rparr>)],
         activeSessions = [], nextId = 2\<rparr>"
proof -
  have h0: "recentView_of ''S1'' ''/docs'' empty_db = None"
    by (simp add: recentView_of_def query_desc_first_def empty_db_def)
  have h1: "\<forall>j w. recentView_of ''S1'' ''/docs'' empty_db = Some (j, w) \<longrightarrow>
              timestamp w \<le> 0 - DEDUP_WINDOW_MS"
    by (simp add: h0)
  have h2: "(0::int) < 60000" by simp
  note T = recordPageView_outside_window_inserts
    [OF h1 h2, where pt = "''page''" and pt' = "''page''"]
  have c: "recordPageView (0 + DEDUP_WINDOW_MS + 60000) ''/docs'' ''page'' ''S1''
        (recordPageView 0 ''/docs'' ''page'' ''S1'' empty_db)
      = \<lparr>pageViews =
           [(0, \<lparr>path = ''/docs'', pageType = ''page'', sessionId = ''S1'', timestamp = 0\<rparr>),
            (1, \<lparr>path = ''/docs'', pageType = ''page'', sessionId = ''S1'',
                 timestamp = 1860000\<rparr>)],
         activeSessions = [], nextId = 2\<rparr>"
    using T [THEN conjunct1] by (simp add: empty_db_def DEDUP_WINDOW_MS_def numeral_2_eq_2)
  from h0 h2 c show ?thesis by blast
qed

section \<open>Properties of heartbeat\<close>

lemma query_first_patch:
  assumes "\<And>x. P (f x) = P x" and "query_first P t = Some (i, r)"
  shows "query_first P (db_patch e f t) = Some (i, if i = e then f r else r)"
  using assms(2)
  by (induction t) (auto simp: query_first_def db_patch_def assms(1) split: if_splits)

lemma query_first_insert:
  "query_first P (db_insert n x t) =
     (case query_first P t of Some y \<Rightarrow> Some y | None \<Rightarrow> if P x then Some (n, x) else None)"
  by (induction t) (auto simp: query_first_def db_insert_def)

lemma query_first_None_iff:
  "query_first P t = None \<longleftrightarrow> (\<forall>(i, x) \<in> set t. \<not> P x)"
  by (auto simp: query_first_def find_None_iff)

lemma session_ids_patch:
  "map (\<lambda>(i, s). activeSession.sessionId s)
     (db_patch e (\<lambda>s. s\<lparr>currentPath := p, lastSeen := now\<rparr>) t) =
   map (\<lambda>(i, s). activeSession.sessionId s) t"
  by (induction t) (auto simp: db_patch_def)

text \<open>
  The three ways a call of \<open>heartbeat\<close> ends: the short circuit, the patch of the
  record found, the insert when none is found.
\<close>

lemma heartbeat_cases [case_names noop patch ins]:
  obtains i r where "session_of s d = Some (i, r)"
      "currentPath r = p" "now - lastSeen r < HEARTBEAT_DEDUP_MS"
      "heartbeat now s p d = d"
  | i r where "session_of s d = Some (i, r)"
      "\<not> (currentPath r = p \<and> now - lastSeen r < HEARTBEAT_DEDUP_MS)"
      "heartbeat now s p d =
         d\<lparr>activeSessions :=
             db_patch i (\<lambda>x. x\<lparr>currentPath := p, lastSeen := now\<rparr>) (activeSessions d)\<rparr>"
  | "session_of s d = None"
      "heartbeat now s p d =
         d\<lparr>activeSessions :=
             db_insert (nextId d) \<lparr>sessionId = s, currentPath = p, lastSeen = now\<rparr>
               (activeSessions d),
           nextId := Suc (nextId d)\<rparr>"
proof (cases "session_of s d")
  case None
  then show ?thesis using that(3) by (simp add: heartbeat_def)
next
  case (Some e)
  obtain i r where e: "e = (i, r)" by (cases e)
  show ?thesis
  proof (cases "currentPath r = p \<and> now - lastSeen r < HEARTBEAT_DEDUP_MS")
    case True
    with Some e show ?thesis using that(1) [of i r] by (simp add: heartbeat_def)
  next
    case False
    with Some e show ?thesis using that(2) [of i r] by (auto simp: heartbeat_def)
  qed
qed

lemma heartbeat_unique:
  assumes "unique_sessions d"
  shows "unique_sessions (heartbeat now s p d)"
proof (cases now s p d rule: heartbeat_cases)
  case (noop i r)
  with assms show ?thesis by simp
next
  case (patch i r)
  with assms show ?thesis by (simp add: unique_sessions_def session_ids_patch)
next
  case ins
  from ins(1) have "s \<notin> set (map (\<lambda>(i, x). activeSession.sessionId x) (activeSessions d))"
    by (auto simp: session_of_def query_first_None_iff)
  with assms ins(2) show ?thesis
    by (simp add: unique_sessions_def db_insert_def)
qed

lemma heartbeat_seq_unique:
  "unique_sessions d \<Longrightarrow> unique_sessions (heartbeat_seq calls d)"
proof (induction calls arbitrary: d)
  case Nil
  then show ?case by simp
next
  case (Cons c calls)
  obtain now s p where "c = (now, s, p)" by (cases c)
  with Cons show ?case by (simp add: heartbeat_unique)
qed

lemma distinct_key_filter_le_1:
  "distinct (map f xs) \<Longrightarrow> length (filter (\<lambda>x. f x = k) xs) \<le> Suc 0"
proof (induction xs)
  case Nil
  then show ?case by simp
next
  case (Cons x xs)
  show ?case
  proof (cases "f x = k")
    case True
    from Cons.prems have "f x \<notin> f ` set xs" by simp
    with True have "\<forall>y \<in> set xs. f y \<noteq> k" by blast
    then have "filter (\<lambda>y. f y = k) xs = []"
      by (simp add: filter_empty_conv)
    with True show ?thesis by simp
  next
    case False
    with Cons show ?thesis by simp
  qed
qed

lemma filter_le_1_distinct_key:
  "\<forall>k. length (filter (\<lambda>x. f x = k) xs) \<le> Suc 0 \<Longrightarrow> distinct (map f xs)"
proof (induction xs)
  case Nil
  then show ?case by simp
next
  case (Cons x xs)
  have "f x \<notin> f ` set xs"
  proof
    assume "f x \<in> f ` set xs"
    then obtain y where "y \<in> set xs" "f y = f x" by auto
    then have "filter (\<lambda>z. f z = f x) xs \<noteq> []"
      by (auto simp: filter_empty_conv)
    then have "0 < length (filter (\<lambda>z. f z = f x) xs)" by simp
    moreover from Cons.prems have "length (filter (\<lambda>z. f z = f x) (x # xs)) \<le> Suc 0"
      by blast
    ultimately show False by simp
  qed
  moreover have "\<forall>k. length (filter (\<lambda>z. f z = k) xs) \<le> Suc 0"
  proof
    fix k
    from Cons.prems have "length (filter (\<lambda>z. f z = k) (x # xs)) \<le> Suc 0" by blast
    then show "length (filter (\<lambda>z. f z = k) xs) \<le> Suc 0"
      by (simp split: if_splits)
  qed
  ultimately show ?case using Cons.IH by simp
qed

lemma unique_sessions_at_most_one:
  assumes "unique_sessions d"
  shows "length (sessions_of s d) \<le> 1"
proof -
  have "sessions_of s d =
          filter (\<lambda>x. (\<lambda>(i, r). activeSession.sessionId r) x = s) (activeSessions d)"
    by (simp add: sessions_of_def query_collect_def case_prod_unfold)
  with distinct_key_filter_le_1 [of "\<lambda>(i, r). activeSession.sessionId r" "activeSessions d" s] assms
  show ?thesis by (simp add: unique_sessions_def)
qed

lemma unique_sessions_iff:
  "unique_sessions d \<longleftrightarrow> (\<forall>s. length (sessions_of s d) \<le> 1)"
proof
  assume "unique_sessions d"
  then show "\<forall>s. length (sessions_of s d) \<le> 1"
    using unique_sessions_at_most_one by blast
next
  assume a: "\<forall>s. length (sessions_of s d) \<le> 1"
  have "\<forall>k. length (filter (\<lambda>x. (\<lambda>(i, r). activeSession.sessionId r) x = k) (activeSessions d))
            \<le> Suc 0"
    using a by (simp add: sessions_of_def query_collect_def case_prod_unfold)
  then show "unique_sessions d"
    unfolding unique_sessions_def by (rule filter_le_1_distinct_key)
qed

lemma session_of_patched:
  assumes "session_of s' d = Some (i, r)"
  shows "session_of s'
           (d\<lparr>activeSessions :=
               db_patch e (\<lambda>x. x\<lparr>currentPath := p, lastSeen := now\<rparr>) (activeSessions d)\<rparr>) =
         Some (i, if i = e then r\<lparr>currentPath := p, lastSeen := now\<rparr> else r)"
  using assms
    query_first_patch [of "\<lambda>x. activeSession.sessionId x = s'"
      "\<lambda>x. x\<lparr>currentPath := p, lastSeen := now\<rparr>" "activeSessions d" i r e]
  by (simp add: session_of_def)

lemma session_of_inserted:
  "session_of s'
     (d\<lparr>activeSessions := db_insert n x (activeSessions d), nextId := m\<rparr>) =
   (case session_of s' d of
      Some y \<Rightarrow> Some y
    | None \<Rightarrow> if activeSession.sessionId x = s' then Some (n, x) else None)"
  by (simp add: session_of_def query_first_insert)

lemma heartbeat_noop:
  assumes "session_of s d = Some (i, r)" and "currentPath r = p"
      and "now - lastSeen r < HEARTBEAT_DEDUP_MS"
  shows "heartbeat now s p d = d"
  using assms by (simp add: heartbeat_def)

lemma heartbeat_writes:
  assumes "\<forall>i r. session_of s d = Some (i, r) \<longrightarrow>
             currentPath r \<noteq> p \<or> HEARTBEAT_DEDUP_MS \<le> now - lastSeen r"
  shows "\<exists>i r. session_of s (heartbeat now s p d) = Some (i, r)
               \<and> currentPath r = p \<and> lastSeen r = now"
proof (cases now s p d rule: heartbeat_cases)
  case (noop i r)
  with assms show ?thesis by force
next
  case (patch i r)
  then show ?thesis by (simp add: session_of_patched)
next
  case ins
  then show ?thesis by (simp add: session_of_inserted)
qed

lemma heartbeat_session_stable:
  assumes "session_of s' d = Some (i', r')"
  shows "session_of s' (heartbeat now s p d) = Some (i', r')
       \<or> session_of s' (heartbeat now s p d) =
           Some (i', r'\<lparr>currentPath := p, lastSeen := now\<rparr>)"
proof (cases now s p d rule: heartbeat_cases)
  case (noop i r)
  with assms show ?thesis by simp
next
  case (patch i r)
  with assms show ?thesis by (simp add: session_of_patched)
next
  case ins
  with assms show ?thesis by (simp add: session_of_inserted)
qed

lemma heartbeat_rows:
  assumes "(j, x) \<in> set (activeSessions (heartbeat now s p d))"
  shows "(j, x) \<in> set (activeSessions d) \<or> lastSeen x = now"
proof (cases now s p d rule: heartbeat_cases)
  case (noop i r)
  with assms show ?thesis by simp
next
  case (patch i r)
  with assms show ?thesis by (auto simp: db_patch_def split: if_splits)
next
  case ins
  with assms show ?thesis by (auto simp: db_insert_def)
qed

lemma heartbeat_seq_lastSeen_mono:
  assumes "session_of s' d = Some (i', r')"
      and "sorted (map fst calls)"
      and "\<forall>(j, x) \<in> set (activeSessions d). \<forall>c \<in> set calls. lastSeen x \<le> fst c"
  shows "\<exists>r''. session_of s' (heartbeat_seq calls d) = Some (i', r'') \<and> lastSeen r' \<le> lastSeen r''"
  using assms
proof (induction calls arbitrary: d r')
  case Nil
  then show ?case by simp
next
  case (Cons c calls)
  obtain now s p where c: "c = (now, s, p)" by (cases c)
  let ?d1 = "heartbeat now s p d"
  from Cons.prems(1) have "(i', r') \<in> set (activeSessions d)"
    by (auto simp: session_of_def query_first_def find_Some_iff in_set_conv_nth)
  with Cons.prems(3) c have le_now: "lastSeen r' \<le> now" by auto
  from heartbeat_session_stable [OF Cons.prems(1), of now s p] le_now
  obtain r1 where r1: "session_of s' ?d1 = Some (i', r1)" "lastSeen r' \<le> lastSeen r1"
    by auto
  from Cons.prems(2) c have sorted: "sorted (map fst calls)" "\<forall>c' \<in> set calls. now \<le> fst c'"
    by auto
  have inv: "\<forall>(j, x) \<in> set (activeSessions ?d1). \<forall>c' \<in> set calls. lastSeen x \<le> fst c'"
  proof (clarify)
    fix j x c'
    assume jx: "(j, x) \<in> set (activeSessions ?d1)" and c': "c' \<in> set calls"
    from heartbeat_rows [OF jx] show "lastSeen x \<le> fst c'"
    proof
      assume "(j, x) \<in> set (activeSessions d)"
      with Cons.prems(3) c' show ?thesis by auto
    next
      assume "lastSeen x = now"
      with sorted(2) c' show ?thesis by auto
    qed
  qed
  from Cons.IH [OF r1(1) sorted(1) inv] obtain r'' where
    "session_of s' (heartbeat_seq calls ?d1) = Some (i', r'')" "lastSeen r1 \<le> lastSeen r''"
    by blast
  with r1(2) c show ?case by auto
qed

text \<open>
  C2. Heartbeat upsert uniqueness. When the store holds at most one session record
  per \<open>sessionId\<close>, it still does after any sequence of \<open>heartbeat\<close> calls, for any
  sessions, paths and times. Each call leaves the store unchanged, or patches the
  record it found, or inserts a record when it found none.
\<close>

theorem heartbeat_upsert_unique:
  assumes "\<forall>s. length (sessions_of s d) \<le> 1"
  shows "(\<forall>s. length (sessions_of s (heartbeat_seq calls d)) \<le> 1)
       \<and> (heartbeat now a p d = d
          \<or> (\<exists>i r. session_of a d = Some (i, r)
                \<and> heartbeat now a p d =
                    d\<lparr>activeSessions :=
                        db_patch i (\<lambda>x. x\<lparr>currentPath := p, lastSeen := now\<rparr>)
                          (activeSessions d)\<rparr>)
          \<or> (session_of a d = None
                \<and> heartbeat now a p d =
                    d\<lparr>activeSessions :=
                        db_insert (nextId d)
                          \<lparr>sessionId = a, currentPath = p, lastSeen = now\<rparr>
                          (activeSessions d),
                      nextId := Suc (nextId d)\<rparr>))"
proof
  from assms have "unique_sessions d" by (simp add: unique_sessions_iff)
  then have "unique_sessions (heartbeat_seq calls d)" by (rule heartbeat_seq_unique)
  then show "\<forall>s. length (sessions_of s (heartbeat_seq calls d)) \<le> 1"
    by (simp add: unique_sessions_iff)
next
  show "heartbeat now a p d = d
          \<or> (\<exists>i r. session_of a d = Some (i, r)
                \<and> heartbeat now a p d =
                    d\<lparr>activeSessions :=
                        db_patch i (\<lambda>x. x\<lparr>currentPath := p, lastSeen := now\<rparr>)
                          (activeSessions d)\<rparr>)
          \<or> (session_of a d = None
                \<and> heartbeat now a p d =
                    d\<lparr>activeSessions :=
                        db_insert (nextId d)
                          \<lparr>sessionId = a, currentPath = p, lastSeen = now\<rparr>
                          (activeSessions d),
                      nextId := Suc (nextId d)\<rparr>)"
    by (cases now a p d rule: heartbeat_cases) auto
qed

theorem heartbeat_upsert_unique_witness:
  "unique_sessions
     \<lparr>pageViews = [],
      activeSessions = [(0, \<lparr>sessionId = ''S1'', currentPath = ''/blog/a'', lastSeen = 0\<rparr>)],
      nextId = 1\<rparr>
   \<and> (\<forall>s. length (sessions_of s
          \<lparr>pageViews = [],
           activeSessions = [(0, \<lparr>sessionId = ''S1'', currentPath = ''/blog/a'', lastSeen = 0\<rparr>)],
           nextId = 1\<rparr>) \<le> 1)
   \<and> (\<forall>s. length (sessions_of s
          (heartbeat_seq
             [(5000, ''S1'', ''/blog/a''), (31000, ''S1'', ''/blog/b''),
              (32000, ''S2'', ''/blog/a''), (33000, ''S2'', ''/blog/a'')]
             \<lparr>pageViews = [],
              activeSessions =
                [(0, \<lparr>sessionId = ''S1'', currentPath = ''/blog/a'', lastSeen = 0\<rparr>)],
              nextId = 1\<rparr>)) \<le> 1)
   \<and> activeSessions
        (heartbeat_seq
           [(5000, ''S1'', ''/blog/a''), (31000, ''S1'', ''/blog/b''),
            (32000, ''S2'', ''/blog/a''), (33000, ''S2'', ''/blog/a'')]
           \<lparr>pageViews = [],
            activeSessions =
              [(0, \<lparr>sessionId = ''S1'', currentPath = ''/blog/a'', lastSeen = 0\<rparr>)],
            nextId = 1\<rparr>)
      = [(0, \<lparr>sessionId = ''S1'', currentPath = ''/blog/b'', lastSeen = 31000\<rparr>),
         (1, \<lparr>sessionId = ''S2'', currentPath = ''/blog/a'', lastSeen = 32000\<rparr>)]"
proof -
  let ?d = "\<lparr>pageViews = [],
      activeSessions = [(0, \<lparr>sessionId = ''S1'', currentPath = ''/blog/a'', lastSeen = 0\<rparr>)],
      nextId = 1\<rparr>"
  let ?calls = "[(5000, ''S1'', ''/blog/a''), (31000, ''S1'', ''/blog/b''),
              (32000, ''S2'', ''/blog/a''), (33000, ''S2'', ''/blog/a'')]"
  have u: "unique_sessions ?d"
    by (simp add: unique_sessions_def)
  then have h: "\<forall>s. length (sessions_of s ?d) \<le> 1"
    by (simp add: unique_sessions_iff)
  note T = heartbeat_upsert_unique [OF h, of ?calls, THEN conjunct1]
  have e: "activeSessions (heartbeat_seq ?calls ?d)
      = [(0, \<lparr>sessionId = ''S1'', currentPath = ''/blog/b'', lastSeen = 31000\<rparr>),
         (1, \<lparr>sessionId = ''S2'', currentPath = ''/blog/a'', lastSeen = 32000\<rparr>)]"
    by (simp add: heartbeat_def session_of_def query_first_def db_patch_def db_insert_def
        HEARTBEAT_DEDUP_MS_def)
  from u h T e show ?thesis by blast
qed

text \<open>
  C3, as amended. Heartbeat short circuit. When \<open>heartbeat\<close> for session \<open>s\<close> and
  path \<open>p\<close> at \<open>t1\<close> writes (it finds no record, or the record has another path, or
  its \<open>lastSeen\<close> is at least \<open>HEARTBEAT_DEDUP_MS\<close> before \<open>t1\<close>), a second call for
  \<open>s\<close> and \<open>p\<close> at \<open>t2\<close> with \<open>t2 - t1 < HEARTBEAT_DEDUP_MS\<close> writes nothing: the
  store is the one the first call left, and the record of \<open>s\<close> has \<open>lastSeen = t1\<close>.
\<close>

theorem heartbeat_short_circuit:
  assumes first_writes:
        "\<forall>i r. session_of s d = Some (i, r) \<longrightarrow>
           currentPath r \<noteq> p \<or> HEARTBEAT_DEDUP_MS \<le> t1 - lastSeen r"
      and window: "t2 - t1 < HEARTBEAT_DEDUP_MS"
  shows "heartbeat t2 s p (heartbeat t1 s p d) = heartbeat t1 s p d
       \<and> (\<exists>i r. session_of s (heartbeat t2 s p (heartbeat t1 s p d)) = Some (i, r)
              \<and> currentPath r = p \<and> lastSeen r = t1)"
proof -
  from first_writes obtain i r where
    r: "session_of s (heartbeat t1 s p d) = Some (i, r)" "currentPath r = p" "lastSeen r = t1"
    using heartbeat_writes by blast
  with window have "heartbeat t2 s p (heartbeat t1 s p d) = heartbeat t1 s p d"
    by (simp add: heartbeat_noop)
  with r show ?thesis by simp
qed

theorem heartbeat_short_circuit_witness:
  "session_of ''S1'' empty_db = None
   \<and> (5000::int) - 0 < HEARTBEAT_DEDUP_MS
   \<and> heartbeat 0 ''S1'' ''/blog/a'' empty_db
      = \<lparr>pageViews = [],
         activeSessions = [(0, \<lparr>sessionId = ''S1'', currentPath = ''/blog/a'', lastSeen = 0\<rparr>)],
         nextId = 1\<rparr>
   \<and> heartbeat 5000 ''S1'' ''/blog/a'' (heartbeat 0 ''S1'' ''/blog/a'' empty_db)
      = heartbeat 0 ''S1'' ''/blog/a'' empty_db
   \<and> (\<exists>i r. session_of ''S1''
                (heartbeat 5000 ''S1'' ''/blog/a'' (heartbeat 0 ''S1'' ''/blog/a'' empty_db))
              = Some (i, r)
            \<and> currentPath r = ''/blog/a'' \<and> lastSeen r = 0)"
proof -
  have h0: "session_of ''S1'' empty_db = None"
    by (simp add: session_of_def query_first_def empty_db_def)
  have h1: "\<forall>i r. session_of ''S1'' empty_db = Some (i, r) \<longrightarrow>
              currentPath r \<noteq> ''/blog/a'' \<or> HEARTBEAT_DEDUP_MS \<le> 0 - lastSeen r"
    by (simp add: h0)
  have h2: "(5000::int) - 0 < HEARTBEAT_DEDUP_MS"
    by (simp add: HEARTBEAT_DEDUP_MS_def)
  note T = heartbeat_short_circuit [OF h1 h2]
  have e: "heartbeat 0 ''S1'' ''/blog/a'' empty_db
      = \<lparr>pageViews = [],
         activeSessions = [(0, \<lparr>sessionId = ''S1'', currentPath = ''/blog/a'', lastSeen = 0\<rparr>)],
         nextId = 1\<rparr>"
    by (simp add: heartbeat_def session_of_def query_first_def db_insert_def empty_db_def)
  from h0 h2 e T show ?thesis by blast
qed

text \<open>
  The window of the short circuit is measured from the stored \<open>lastSeen\<close>, not from
  the previous call. With a record last seen at \<open>0\<close>, a call at 6 s is short-circuited
  and a call at 12 s, less than ten seconds after it, patches the record.
\<close>

theorem heartbeat_short_circuit_counterexample:
  "(12000::int) - 6000 < HEARTBEAT_DEDUP_MS
   \<and> heartbeat 6000 ''S1'' ''/blog/a''
        \<lparr>pageViews = [],
         activeSessions = [(0, \<lparr>sessionId = ''S1'', currentPath = ''/blog/a'', lastSeen = 0\<rparr>)],
         nextId = 1\<rparr>
      = \<lparr>pageViews = [],
         activeSessions = [(0, \<lparr>sessionId = ''S1'', currentPath = ''/blog/a'', lastSeen = 0\<rparr>)],
         nextId = 1\<rparr>
   \<and> heartbeat 12000 ''S1'' ''/blog/a''
        (heartbeat 6000 ''S1'' ''/blog/a''
          \<lparr>pageViews = [],
           activeSessions = [(0, \<lparr>sessionId = ''S1'', currentPath = ''/blog/a'', lastSeen = 0\<rparr>)],
           nextId = 1\<rparr>)
      = \<lparr>pageViews = [],
         activeSessions =
           [(0, \<lparr>sessionId = ''S1'', currentPath = ''/blog/a'', lastSeen = 12000\<rparr>)],
         nextId = 1\<rparr>
   \<and> heartbeat 12000 ''S1'' ''/blog/a''
        (heartbeat 6000 ''S1'' ''/blog/a''
          \<lparr>pageViews = [],
           activeSessions = [(0, \<lparr>sessionId = ''S1'', currentPath = ''/blog/a'', lastSeen = 0\<rparr>)],
           nextId = 1\<rparr>)
      \<noteq> heartbeat 6000 ''S1'' ''/blog/a''
        \<lparr>pageViews = [],
         activeSessions = [(0, \<lparr>sessionId = ''S1'', currentPath = ''/blog/a'', lastSeen = 0\<rparr>)],
         nextId = 1\<rparr>"
  by (simp add: heartbeat_def session_of_def query_first_def db_patch_def HEARTBEAT_DEDUP_MS_def)

text \<open>
  C10. Monotone \<open>lastSeen\<close>. A call of \<open>heartbeat\<close> for a session that has a record
  either leaves the whole store unchanged or patches that record, setting
  \<open>currentPath\<close> and \<open>lastSeen\<close> to the call's path and time in one write. Over calls
  at non-decreasing times, none earlier than a \<open>lastSeen\<close> already stored, the record
  of any session keeps its id and its \<open>lastSeen\<close> does not decrease. Whenever one call
  changes the \<open>lastSeen\<close> of a session's record, the record then holds the call's time
  and path.
\<close>

theorem heartbeat_lastSeen_monotone:
  "(session_of s d = Some (i, r) \<longrightarrow>
      heartbeat now s p d = d
      \<or> heartbeat now s p d =
          d\<lparr>activeSessions :=
              db_patch i (\<lambda>x. x\<lparr>currentPath := p, lastSeen := now\<rparr>) (activeSessions d)\<rparr>
        \<and> session_of s (heartbeat now s p d) =
            Some (i, r\<lparr>currentPath := p, lastSeen := now\<rparr>))
   \<and> (session_of s' d = Some (i', r') \<and> sorted (map fst calls)
        \<and> (\<forall>(j, x) \<in> set (activeSessions d). \<forall>c \<in> set calls. lastSeen x \<le> fst c) \<longrightarrow>
      (\<exists>r''. session_of s' (heartbeat_seq calls d) = Some (i', r'')
             \<and> lastSeen r' \<le> lastSeen r''))
   \<and> (session_of s' d = Some (i', r') \<longrightarrow>
      (\<exists>r''. session_of s' (heartbeat now s p d) = Some (i', r'')
             \<and> (lastSeen r'' \<noteq> lastSeen r' \<longrightarrow> lastSeen r'' = now \<and> currentPath r'' = p)))"
proof (intro conjI impI)
  assume a: "session_of s d = Some (i, r)"
  show "heartbeat now s p d = d
      \<or> heartbeat now s p d =
          d\<lparr>activeSessions :=
              db_patch i (\<lambda>x. x\<lparr>currentPath := p, lastSeen := now\<rparr>) (activeSessions d)\<rparr>
        \<and> session_of s (heartbeat now s p d) =
            Some (i, r\<lparr>currentPath := p, lastSeen := now\<rparr>)"
  proof (cases now s p d rule: heartbeat_cases)
    case (noop i0 r0)
    then show ?thesis by simp
  next
    case (patch i0 r0)
    with a show ?thesis by (simp add: session_of_patched)
  next
    case ins
    with a show ?thesis by simp
  qed
next
  assume "session_of s' d = Some (i', r') \<and> sorted (map fst calls)
        \<and> (\<forall>(j, x) \<in> set (activeSessions d). \<forall>c \<in> set calls. lastSeen x \<le> fst c)"
  then show "\<exists>r''. session_of s' (heartbeat_seq calls d) = Some (i', r'')
             \<and> lastSeen r' \<le> lastSeen r''"
    using heartbeat_seq_lastSeen_mono by blast
next
  assume "session_of s' d = Some (i', r')"
  from heartbeat_session_stable [OF this, of now s p]
  show "\<exists>r''. session_of s' (heartbeat now s p d) = Some (i', r'')
             \<and> (lastSeen r'' \<noteq> lastSeen r' \<longrightarrow> lastSeen r'' = now \<and> currentPath r'' = p)"
    by auto
qed

theorem heartbeat_lastSeen_monotone_witness:
  "session_of ''S1''
     \<lparr>pageViews = [],
      activeSessions = [(0, \<lparr>sessionId = ''S1'', currentPath = ''/blog/a'', lastSeen = 0\<rparr>)],
      nextId = 1\<rparr>
     = Some (0, \<lparr>sessionId = ''S1'', currentPath = ''/blog/a'', lastSeen = 0\<rparr>)
   \<and> sorted (map fst [(5000::int, ''S1'', ''/blog/a''), (31000, ''S1'', ''/blog/b'')])
   \<and> list_all (\<lambda>(j, x). list_all (\<lambda>c. lastSeen x \<le> fst c)
                  [(5000::int, ''S1'', ''/blog/a''), (31000, ''S1'', ''/blog/b'')])
        [(0::nat, \<lparr>sessionId = ''S1'', currentPath = ''/blog/a'', lastSeen = 0\<rparr>)]
   \<and> heartbeat 31000 ''S1'' ''/blog/b''
        \<lparr>pageViews = [],
         activeSessions = [(0, \<lparr>sessionId = ''S1'', currentPath = ''/blog/a'', lastSeen = 0\<rparr>)],
         nextId = 1\<rparr>
      \<noteq> \<lparr>pageViews = [],
         activeSessions = [(0, \<lparr>sessionId = ''S1'', currentPath = ''/blog/a'', lastSeen = 0\<rparr>)],
         nextId = 1\<rparr>
   \<and> session_of ''S1''
        (heartbeat 31000 ''S1'' ''/blog/b''
          \<lparr>pageViews = [],
           activeSessions =
             [(0, \<lparr>sessionId = ''S1'', currentPath = ''/blog/a'', lastSeen = 0\<rparr>)],
           nextId = 1\<rparr>)
      = Some (0, \<lparr>sessionId = ''S1'', currentPath = ''/blog/b'', lastSeen = 31000\<rparr>)
   \<and> (\<exists>r''. session_of ''S1''
          (heartbeat_seq [(5000, ''S1'', ''/blog/a''), (31000, ''S1'', ''/blog/b'')]
            \<lparr>pageViews = [],
             activeSessions =
               [(0, \<lparr>sessionId = ''S1'', currentPath = ''/blog/a'', lastSeen = 0\<rparr>)],
             nextId = 1\<rparr>) = Some (0, r'')
        \<and> lastSeen \<lparr>sessionId = ''S1'', currentPath = ''/blog/a'', lastSeen = 0\<rparr>
            \<le> lastSeen r'')
   \<and> session_of ''S1''
        (heartbeat_seq [(5000, ''S1'', ''/blog/a''), (31000, ''S1'', ''/blog/b'')]
          \<lparr>pageViews = [],
           activeSessions =
             [(0, \<lparr>sessionId = ''S1'', currentPath = ''/blog/a'', lastSeen = 0\<rparr>)],
           nextId = 1\<rparr>)
      = Some (0, \<lparr>sessionId = ''S1'', currentPath = ''/blog/b'', lastSeen = 31000\<rparr>)"
proof -
  let ?r = "\<lparr>sessionId = ''S1'', currentPath = ''/blog/a'', lastSeen = 0\<rparr>"
  let ?d = "\<lparr>pageViews = [], activeSessions = [(0, ?r)], nextId = 1\<rparr>"
  let ?calls = "[(5000::int, ''S1'', ''/blog/a''), (31000, ''S1'', ''/blog/b'')]"
  have h1: "session_of ''S1'' ?d = Some (0, ?r)"
    by (simp add: session_of_def query_first_def)
  have h2: "sorted (map fst ?calls)" by simp
  have h3: "\<forall>(j, x) \<in> set (activeSessions ?d). \<forall>c \<in> set ?calls. lastSeen x \<le> fst c"
    by simp
  have h3': "list_all (\<lambda>(j, x). list_all (\<lambda>c. lastSeen x \<le> fst c) ?calls) [(0::nat, ?r)]"
    by simp
  note T = heartbeat_lastSeen_monotone
    [where s = "''S1''" and d = ?d and i = 0 and r = ?r and now = 31000 and p = "''/blog/b''"
       and s' = "''S1''" and i' = 0 and r' = ?r and calls = ?calls]
  have ne: "heartbeat 31000 ''S1'' ''/blog/b'' ?d \<noteq> ?d"
    by (simp add: heartbeat_def session_of_def query_first_def db_patch_def)
  from T [THEN conjunct1] h1 ne
  have "session_of ''S1'' (heartbeat 31000 ''S1'' ''/blog/b'' ?d)
      = Some (0, ?r\<lparr>currentPath := ''/blog/b'', lastSeen := 31000\<rparr>)"
    by blast
  then have c1: "session_of ''S1'' (heartbeat 31000 ''S1'' ''/blog/b'' ?d)
      = Some (0, \<lparr>sessionId = ''S1'', currentPath = ''/blog/b'', lastSeen = 31000\<rparr>)"
    by simp
  from T [THEN conjunct2, THEN conjunct1] h1 h2 h3
  have c2: "\<exists>r''. session_of ''S1'' (heartbeat_seq ?calls ?d) = Some (0, r'')
        \<and> lastSeen ?r \<le> lastSeen r''"
    by blast
  have e2: "session_of ''S1'' (heartbeat_seq ?calls ?d)
      = Some (0, \<lparr>sessionId = ''S1'', currentPath = ''/blog/b'', lastSeen = 31000\<rparr>)"
    by (simp add: heartbeat_def session_of_def query_first_def db_patch_def
        HEARTBEAT_DEDUP_MS_def)
  from h1 h2 h3' ne c1 c2 e2 show ?thesis by blast
qed

section \<open>Properties of cleanupStaleSessions\<close>

lemma snd_delete_each_Cons:
  "snd (delete_each fails (i # ids) t) =
     snd (delete_each fails ids (if fails i then t else db_delete i t))"
  by (simp add: try_delete_def case_prod_unfold)

lemma fst_delete_each_Cons:
  "fst (delete_each fails (i # ids) t) =
     (if fails i then Rejected else Fulfilled)
       # fst (delete_each fails ids (if fails i then t else db_delete i t))"
  by (simp add: try_delete_def case_prod_unfold)

lemma delete_each_table:
  "snd (delete_each fails ids t) = filter (\<lambda>(j, x). \<not> (j \<in> set ids \<and> \<not> fails j)) t"
proof (induction ids arbitrary: t)
  case Nil
  then show ?case by simp
next
  case (Cons i ids)
  show ?case
  proof (cases "fails i")
    case True
    have "filter (\<lambda>(j, x). \<not> (j \<in> set ids \<and> \<not> fails j)) t =
          filter (\<lambda>(j, x). \<not> (j \<in> set (i # ids) \<and> \<not> fails j)) t"
      using True by (intro filter_cong) auto
    with True Cons.IH [of t] show ?thesis
      by (simp only: snd_delete_each_Cons if_True)
  next
    case False
    have "filter (\<lambda>(j, x). \<not> (j \<in> set ids \<and> \<not> fails j)) (db_delete i t) =
          filter (\<lambda>(j, x). \<not> (j \<in> set (i # ids) \<and> \<not> fails j)) t"
      using False by (induction t) (auto simp: db_delete_def)
    with False Cons.IH [of "db_delete i t"] show ?thesis
      by (simp only: snd_delete_each_Cons if_False)
  qed
qed

lemma delete_each_outcomes:
  "fst (delete_each fails ids t) = map (\<lambda>i. if fails i then Rejected else Fulfilled) ids"
proof (induction ids arbitrary: t)
  case Nil
  then show ?case by simp
next
  case (Cons i ids)
  then show ?case by (simp only: fst_delete_each_Cons list.map)
qed

lemma promise_all_delete_each:
  "promise_all (fst (delete_each fails ids t)) =
     (if \<exists>i \<in> set ids. fails i then Rejected else Fulfilled)"
  by (auto simp: promise_all_def delete_each_outcomes list_ex_iff)

lemma stale_ids:
  assumes "distinct (map fst t)" and "(j, x) \<in> set t"
  shows "j \<in> set (map fst (query_collect P t)) \<longleftrightarrow> P x"
proof
  assume "j \<in> set (map fst (query_collect P t))"
  then obtain y where y: "(j, y) \<in> set t" "P y"
    by (auto simp: query_collect_def)
  from assms y(1) have "y = x"
    by (meson eq_key_imp_eq_value)
  with y(2) show "P x" by simp
next
  assume "P x"
  with assms(2) show "j \<in> set (map fst (query_collect P t))"
    by (force simp: query_collect_def)
qed

lemma cleanupStaleSessions_unfold:
  "cleanupStaleSessions fails now d =
     (if promise_all (fst (delete_each fails
           (map fst (query_collect (\<lambda>s. lastSeen s < now - SESSION_TIMEOUT_MS)
              (activeSessions d)))
           (activeSessions d))) = Rejected
      then (Rejected, d)
      else (Fulfilled,
            d\<lparr>activeSessions := snd (delete_each fails
              (map fst (query_collect (\<lambda>s. lastSeen s < now - SESSION_TIMEOUT_MS)
                 (activeSessions d)))
              (activeSessions d))\<rparr>))"
  by (simp add: cleanupStaleSessions_def case_prod_unfold Let_def split: outcome.splits)

lemma stale_rejected_iff:
  "(\<exists>i \<in> set (map fst (query_collect (\<lambda>s. lastSeen s < c) t)). fails i) \<longleftrightarrow>
     (\<exists>(i, s) \<in> set t. lastSeen s < c \<and> fails i)"
  by (force simp: query_collect_def)

lemma cleanup_outcome:
  "fst (cleanupStaleSessions fails now d) =
     (if \<exists>(i, s) \<in> set (activeSessions d). lastSeen s < now - SESSION_TIMEOUT_MS \<and> fails i
      then Rejected else Fulfilled)"
  unfolding cleanupStaleSessions_unfold promise_all_delete_each stale_rejected_iff
  by simp


lemma cleanup_fulfilled:
  assumes ids: "distinct (map fst (activeSessions d))"
      and ok: "\<forall>(i, s) \<in> set (activeSessions d).
                 lastSeen s < now - SESSION_TIMEOUT_MS \<longrightarrow> \<not> fails i"
  shows "cleanupStaleSessions fails now d =
           (Fulfilled,
            d\<lparr>activeSessions :=
                filter (\<lambda>(i, s). \<not> lastSeen s < now - SESSION_TIMEOUT_MS) (activeSessions d)\<rparr>)"
proof -
  let ?stale = "query_collect (\<lambda>s. lastSeen s < now - SESSION_TIMEOUT_MS) (activeSessions d)"
  from ok have none: "\<not> (\<exists>(i, s) \<in> set (activeSessions d).
      lastSeen s < now - SESSION_TIMEOUT_MS \<and> fails i)"
    by auto
  have "snd (delete_each fails (map fst ?stale) (activeSessions d)) =
          filter (\<lambda>(j, x). \<not> (j \<in> set (map fst ?stale) \<and> \<not> fails j)) (activeSessions d)"
    by (rule delete_each_table)
  also have "\<dots> = filter (\<lambda>(i, s). \<not> lastSeen s < now - SESSION_TIMEOUT_MS) (activeSessions d)"
  proof (intro filter_cong refl)
    fix e
    assume e: "e \<in> set (activeSessions d)"
    obtain j x where jx: "e = (j, x)" by (cases e)
    from e jx stale_ids [OF ids, of j x "\<lambda>s. lastSeen s < now - SESSION_TIMEOUT_MS"]
    have m: "j \<in> set (map fst ?stale) \<longleftrightarrow> lastSeen x < now - SESSION_TIMEOUT_MS"
      by simp
    from ok e jx have "lastSeen x < now - SESSION_TIMEOUT_MS \<longrightarrow> \<not> fails j"
      by auto
    with m jx show "(case e of (j, x) \<Rightarrow> \<not> (j \<in> set (map fst ?stale) \<and> \<not> fails j)) =
        (case e of (i, s) \<Rightarrow> \<not> lastSeen s < now - SESSION_TIMEOUT_MS)"
      by auto
  qed
  finally have tbl: "snd (delete_each fails (map fst ?stale) (activeSessions d)) =
      filter (\<lambda>(i, s). \<not> lastSeen s < now - SESSION_TIMEOUT_MS) (activeSessions d)" .
  from none have "promise_all (fst (delete_each fails (map fst ?stale) (activeSessions d)))
      \<noteq> Rejected"
    unfolding promise_all_delete_each stale_rejected_iff by simp
  with tbl show ?thesis
    by (simp add: cleanupStaleSessions_unfold)
qed

text \<open>
  C4. Reaper correctness. On a table whose ids are distinct, a run of the cleanup at
  \<open>now\<close> in which no delete is rejected removes the records with
  \<open>lastSeen < now - SESSION_TIMEOUT_MS\<close> and no other: the records at or above the
  cutoff stay, unchanged and in order. With no record below the cutoff the run
  changes nothing, and a second run at the same time changes nothing more.
\<close>

theorem cleanupStaleSessions_exact:
  assumes "distinct (map fst (activeSessions d))"
  shows "cleanupStaleSessions no_failure now d =
           (Fulfilled,
            d\<lparr>activeSessions :=
                filter (\<lambda>(i, s). \<not> lastSeen s < now - SESSION_TIMEOUT_MS) (activeSessions d)\<rparr>)
       \<and> ((\<forall>(i, s) \<in> set (activeSessions d). \<not> lastSeen s < now - SESSION_TIMEOUT_MS) \<longrightarrow>
            cleanupStaleSessions no_failure now d = (Fulfilled, d))
       \<and> cleanupStaleSessions no_failure now (snd (cleanupStaleSessions no_failure now d)) =
           cleanupStaleSessions no_failure now d"
proof -
  let ?keep = "\<lambda>(i, s). \<not> lastSeen s < now - SESSION_TIMEOUT_MS"
  let ?d1 = "d\<lparr>activeSessions := filter ?keep (activeSessions d)\<rparr>"
  have run: "cleanupStaleSessions no_failure now d' = (Fulfilled,
      d'\<lparr>activeSessions := filter ?keep (activeSessions d')\<rparr>)"
    if "distinct (map fst (activeSessions d'))" for d'
    by (rule cleanup_fulfilled [OF that]) (simp add: no_failure_def)
  have first: "cleanupStaleSessions no_failure now d = (Fulfilled, ?d1)"
    using assms by (rule run)
  have "distinct (map fst (activeSessions ?d1))"
    using assms by (simp add: distinct_map_filter)
  then have "cleanupStaleSessions no_failure now ?d1 =
      (Fulfilled, ?d1\<lparr>activeSessions := filter ?keep (activeSessions ?d1)\<rparr>)"
    by (rule run)
  then have again: "cleanupStaleSessions no_failure now ?d1 = (Fulfilled, ?d1)"
    by simp
  have none: "cleanupStaleSessions no_failure now d = (Fulfilled, d)"
    if "\<forall>(i, s) \<in> set (activeSessions d). \<not> lastSeen s < now - SESSION_TIMEOUT_MS"
  proof -
    from that have "filter ?keep (activeSessions d) = activeSessions d"
      by (intro filter_True) auto
    with first show ?thesis by simp
  qed
  from first again none show ?thesis by simp
qed

theorem cleanupStaleSessions_exact_witness:
  "distinct (map fst
      [(0::nat, \<lparr>sessionId = ''A'', currentPath = ''/'', lastSeen = 879000\<rparr>),
       (1, \<lparr>sessionId = ''B'', currentPath = ''/'', lastSeen = 880000\<rparr>),
       (2, \<lparr>sessionId = ''C'', currentPath = ''/'', lastSeen = 881000\<rparr>)])
   \<and> cleanupStaleSessions no_failure 1000000
        \<lparr>pageViews = [],
         activeSessions =
           [(0, \<lparr>sessionId = ''A'', currentPath = ''/'', lastSeen = 879000\<rparr>),
            (1, \<lparr>sessionId = ''B'', currentPath = ''/'', lastSeen = 880000\<rparr>),
            (2, \<lparr>sessionId = ''C'', currentPath = ''/'', lastSeen = 881000\<rparr>)],
         nextId = 3\<rparr>
      = (Fulfilled,
         \<lparr>pageViews = [],
          activeSessions =
            [(1, \<lparr>sessionId = ''B'', currentPath = ''/'', lastSeen = 880000\<rparr>),
             (2, \<lparr>sessionId = ''C'', currentPath = ''/'', lastSeen = 881000\<rparr>)],
          nextId = 3\<rparr>)
   \<and> cleanupStaleSessions no_failure 1000000
        (snd (cleanupStaleSessions no_failure 1000000
          \<lparr>pageViews = [],
           activeSessions =
             [(0, \<lparr>sessionId = ''A'', currentPath = ''/'', lastSeen = 879000\<rparr>),
              (1, \<lparr>sessionId = ''B'', currentPath = ''/'', lastSeen = 880000\<rparr>),
              (2, \<lparr>sessionId = ''C'', currentPath = ''/'', lastSeen = 881000\<rparr>)],
           nextId = 3\<rparr>))
      = cleanupStaleSessions no_failure 1000000
          \<lparr>pageViews = [],
           activeSessions =
             [(0, \<lparr>sessionId = ''A'', currentPath = ''/'', lastSeen = 879000\<rparr>),
              (1, \<lparr>sessionId = ''B'', currentPath = ''/'', lastSeen = 880000\<rparr>),
              (2, \<lparr>sessionId = ''C'', currentPath = ''/'', lastSeen = 881000\<rparr>)],
           nextId = 3\<rparr>"
proof -
  let ?t = "[(0::nat, \<lparr>sessionId = ''A'', currentPath = ''/'', lastSeen = 879000\<rparr>),
       (1, \<lparr>sessionId = ''B'', currentPath = ''/'', lastSeen = 880000\<rparr>),
       (2, \<lparr>sessionId = ''C'', currentPath = ''/'', lastSeen = 881000\<rparr>)]"
  let ?d = "\<lparr>pageViews = [], activeSessions = ?t, nextId = 3\<rparr>"
  have h0: "distinct (map fst ?t)" by simp
  then have h: "distinct (map fst (activeSessions ?d))" by simp
  note T = cleanupStaleSessions_exact [OF h, of 1000000]
  have c1: "cleanupStaleSessions no_failure 1000000 ?d
      = (Fulfilled,
         \<lparr>pageViews = [],
          activeSessions =
            [(1, \<lparr>sessionId = ''B'', currentPath = ''/'', lastSeen = 880000\<rparr>),
             (2, \<lparr>sessionId = ''C'', currentPath = ''/'', lastSeen = 881000\<rparr>)],
          nextId = 3\<rparr>)"
    using T [THEN conjunct1] by (simp add: SESSION_TIMEOUT_MS_def)
  from h0 c1 T [THEN conjunct2, THEN conjunct2] show ?thesis by blast
qed




section \<open>Well-formed stores\<close>

lemma wf_table_insert:
  "wf_table n t \<Longrightarrow> wf_table (Suc n) (db_insert n x t)"
  by (auto simp: wf_table_def db_insert_def list_all_iff)

lemma wf_table_Suc:
  "wf_table n t \<Longrightarrow> wf_table (Suc n) t"
  by (auto simp: wf_table_def list_all_iff)

lemma wf_table_ids:
  "wf_table n t \<longleftrightarrow> distinct (map fst t) \<and> (\<forall>j \<in> set (map fst t). j < n)"
  by (auto simp: wf_table_def list_all_iff)

lemma wf_table_patch:
  "wf_table n t \<Longrightarrow> wf_table n (db_patch i f t)"
proof -
  have "map fst (db_patch i f t) = map fst t"
    by (induction t) (auto simp: db_patch_def)
  then show "wf_table n t \<Longrightarrow> wf_table n (db_patch i f t)"
    by (simp add: wf_table_ids)
qed

lemma wf_table_filter:
  "wf_table n t \<Longrightarrow> wf_table n (filter P t)"
  by (auto simp: wf_table_def distinct_map_filter list_all_iff)

lemma wf_db_empty: "wf_db empty_db"
  by (simp add: wf_db_def wf_table_def empty_db_def)

lemma wf_db_recordPageView:
  "wf_db d \<Longrightarrow> wf_db (recordPageView now p pt s d)"
  by (auto simp: wf_db_def recordPageView_def wf_table_insert wf_table_Suc)

lemma wf_db_heartbeat:
  "wf_db d \<Longrightarrow> wf_db (heartbeat now s p d)"
  by (cases now s p d rule: heartbeat_cases)
    (auto simp: wf_db_def wf_table_insert wf_table_Suc wf_table_patch)

lemma wf_db_cleanupStaleSessions:
  "wf_db d \<Longrightarrow> wf_db (snd (cleanupStaleSessions fails now d))"
  by (simp add: wf_db_def cleanupStaleSessions_unfold delete_each_table wf_table_filter)

lemma wf_db_distinct_sessions:
  "wf_db d \<Longrightarrow> distinct (map fst (activeSessions d))"
  by (simp add: wf_db_def wf_table_def)

section \<open>Properties of the client-side tracking\<close>

lemma getSessionId_stored:
  assumes "ls SESSION_ID_KEY = Some v" and "v \<noteq> []"
  shows "getSessionId g ls = (v, ls)"
  using assms by (simp add: getSessionId_def falsy_def)

lemma getSessionId_generates:
  assumes "falsy (ls SESSION_ID_KEY)"
  shows "getSessionId g ls = (g, ls(SESSION_ID_KEY \<mapsto> g))"
  using assms by (simp add: getSessionId_def)

lemma getSessionId_result_stored:
  assumes "g \<noteq> []"
  shows "snd (getSessionId g ls) SESSION_ID_KEY = Some (fst (getSessionId g ls))
       \<and> fst (getSessionId g ls) \<noteq> []"
  using assms
  by (cases "ls SESSION_ID_KEY") (auto simp: getSessionId_def falsy_def Let_def)

lemma getSessionId_seq_stored:
  assumes "ls SESSION_ID_KEY = Some v" and "v \<noteq> []"
  shows "getSessionId_seq gs ls = (replicate (length gs) v, ls)"
  using assms
  by (induction gs) (simp_all add: getSessionId_stored)

text \<open>
  C9. Session identity stability. With a generator that returns a non-empty
  identifier, every call of \<open>getSessionId\<close> after the first returns what the first call
  returned and leaves \<open>localStorage\<close> as the first call left it, whatever the generator
  would return then. After the first call the identifier is stored under
  \<open>SESSION_ID_KEY\<close>; when nothing was stored before, it is the generated one.
\<close>

theorem getSessionId_stable:
  assumes "g \<noteq> []"
  shows "getSessionId_seq (g # gs) ls =
           (replicate (Suc (length gs)) (fst (getSessionId g ls)), snd (getSessionId g ls))
       \<and> snd (getSessionId g ls) SESSION_ID_KEY = Some (fst (getSessionId g ls))
       \<and> (ls SESSION_ID_KEY = None \<longrightarrow>
            getSessionId g ls = (g, ls(SESSION_ID_KEY \<mapsto> g)))
       \<and> getSessionId g' (snd (getSessionId g ls)) =
           (fst (getSessionId g ls), snd (getSessionId g ls))"
proof -
  let ?a = "fst (getSessionId g ls)" and ?ls1 = "snd (getSessionId g ls)"
  from assms have st: "?ls1 SESSION_ID_KEY = Some ?a" "?a \<noteq> []"
    using getSessionId_result_stored by blast+
  then have rest: "getSessionId_seq gs ?ls1 = (replicate (length gs) ?a, ?ls1)"
    by (rule getSessionId_seq_stored)
  have all: "getSessionId_seq (g # gs) ls = (replicate (Suc (length gs)) ?a, ?ls1)"
    by (simp add: rest case_prod_unfold)
  have first: "getSessionId g ls = (g, ls(SESSION_ID_KEY \<mapsto> g))"
    if "ls SESSION_ID_KEY = None"
    using that by (simp add: getSessionId_generates falsy_def)
  have again: "getSessionId g' ?ls1 = (?a, ?ls1)"
    using st by (rule getSessionId_stored)
  from all st(1) first again show ?thesis by blast
qed

theorem getSessionId_stable_witness:
  "''3f2a-9c'' \<noteq> []
   \<and> getSessionId_seq [''3f2a-9c'', ''77b0-1d'', ''c4e8-55''] Map.empty =
        ([''3f2a-9c'', ''3f2a-9c'', ''3f2a-9c''], [SESSION_ID_KEY \<mapsto> ''3f2a-9c''])
   \<and> getSessionId ''3f2a-9c'' Map.empty = (''3f2a-9c'', [SESSION_ID_KEY \<mapsto> ''3f2a-9c''])
   \<and> getSessionId ''77b0-1d'' (snd (getSessionId ''3f2a-9c'' Map.empty)) =
        (''3f2a-9c'', [SESSION_ID_KEY \<mapsto> ''3f2a-9c''])"
proof -
  have h: "''3f2a-9c'' \<noteq> []" by simp
  have n: "(Map.empty :: localStorage) SESSION_ID_KEY = None" by simp
  note T = getSessionId_stable [OF h, of "[''77b0-1d'', ''c4e8-55'']" Map.empty "''77b0-1d''"]
  from T n have first: "getSessionId ''3f2a-9c'' Map.empty =
      (''3f2a-9c'', [SESSION_ID_KEY \<mapsto> ''3f2a-9c''])"
    by blast
  from T have c1: "getSessionId_seq [''3f2a-9c'', ''77b0-1d'', ''c4e8-55''] Map.empty =
        ([''3f2a-9c'', ''3f2a-9c'', ''3f2a-9c''], [SESSION_ID_KEY \<mapsto> ''3f2a-9c''])"
    unfolding first by (simp add: numeral_3_eq_3)
  from T have c2: "getSessionId ''77b0-1d'' (snd (getSessionId ''3f2a-9c'' Map.empty)) =
        (''3f2a-9c'', [SESSION_ID_KEY \<mapsto> ''3f2a-9c''])"
    unfolding first by simp
  from h c1 first c2 show ?thesis by blast
qed

text \<open>
  C7, as amended. Client heartbeat guard. \<open>sendHeartbeat\<close> issues the mutation for
  path \<open>p\<close> at \<open>now\<close> exactly when a session id is set and non-empty, no call is
  pending, and it is not the case that \<open>p\<close> is the last path sent and
  \<open>now - lastHeartbeatTime < HEARTBEAT_DEBOUNCE_MS\<close>. When it issues the call it has
  set the pending mark, \<open>lastHeartbeatTime = now\<close> and \<open>lastHeartbeatPath = p\<close>;
  otherwise the refs are unchanged. When the mutation settles, fulfilled or rejected,
  the pending mark is cleared and \<open>sendHeartbeat\<close> itself is fulfilled.
\<close>

theorem sendHeartbeat_guard:
  "(issues_call now p refs \<longleftrightarrow>
      \<not> falsy (sessionIdRef refs) \<and> \<not> isHeartbeatPending refs
      \<and> \<not> (lastHeartbeatPath refs = Some p
            \<and> now - lastHeartbeatTime refs < HEARTBEAT_DEBOUNCE_MS))
   \<and> (issues_call now p refs \<longrightarrow>
        (\<exists>sid. sessionIdRef refs = Some sid \<and> sid \<noteq> []
           \<and> sendHeartbeat now p refs =
               (Some (sid, p),
                refs\<lparr>isHeartbeatPending := True, lastHeartbeatTime := now,
                     lastHeartbeatPath := Some p\<rparr>)))
   \<and> (\<not> issues_call now p refs \<longrightarrow> sendHeartbeat now p refs = (None, refs))
   \<and> sendHeartbeat_settled result refs' = (Fulfilled, refs'\<lparr>isHeartbeatPending := False\<rparr>)"
proof (intro conjI impI)
  show "issues_call now p refs \<longleftrightarrow>
      \<not> falsy (sessionIdRef refs) \<and> \<not> isHeartbeatPending refs
      \<and> \<not> (lastHeartbeatPath refs = Some p
            \<and> now - lastHeartbeatTime refs < HEARTBEAT_DEBOUNCE_MS)"
    by (auto simp: issues_call_def sendHeartbeat_def)
next
  assume "issues_call now p refs"
  then show "\<exists>sid. sessionIdRef refs = Some sid \<and> sid \<noteq> []
           \<and> sendHeartbeat now p refs =
               (Some (sid, p),
                refs\<lparr>isHeartbeatPending := True, lastHeartbeatTime := now,
                     lastHeartbeatPath := Some p\<rparr>)"
    by (cases "sessionIdRef refs")
      (auto simp: issues_call_def sendHeartbeat_def falsy_def split: if_splits)
next
  assume "\<not> issues_call now p refs"
  then show "sendHeartbeat now p refs = (None, refs)"
    by (auto simp: issues_call_def sendHeartbeat_def split: if_splits)
next
  show "sendHeartbeat_settled result refs' = (Fulfilled, refs'\<lparr>isHeartbeatPending := False\<rparr>)"
    by (cases result) (simp_all add: sendHeartbeat_settled_def)
qed

theorem sendHeartbeat_guard_witness:
  "\<not> falsy (Some ''3f2a-9c'')
   \<and> issues_call 100000 ''/blog/a''
        \<lparr>sessionIdRef = Some ''3f2a-9c'', isHeartbeatPending = False,
         lastHeartbeatTime = 97000, lastHeartbeatPath = Some ''/''\<rparr>
   \<and> sendHeartbeat 100000 ''/blog/a''
        \<lparr>sessionIdRef = Some ''3f2a-9c'', isHeartbeatPending = False,
         lastHeartbeatTime = 97000, lastHeartbeatPath = Some ''/''\<rparr>
      = (Some (''3f2a-9c'', ''/blog/a''),
         \<lparr>sessionIdRef = Some ''3f2a-9c'', isHeartbeatPending = True,
          lastHeartbeatTime = 100000, lastHeartbeatPath = Some ''/blog/a''\<rparr>)
   \<and> \<not> issues_call 101000 ''/blog/a''
        \<lparr>sessionIdRef = Some ''3f2a-9c'', isHeartbeatPending = True,
         lastHeartbeatTime = 100000, lastHeartbeatPath = Some ''/blog/a''\<rparr>
   \<and> sendHeartbeat_settled Rejected
        \<lparr>sessionIdRef = Some ''3f2a-9c'', isHeartbeatPending = True,
         lastHeartbeatTime = 100000, lastHeartbeatPath = Some ''/blog/a''\<rparr>
      = (Fulfilled,
         \<lparr>sessionIdRef = Some ''3f2a-9c'', isHeartbeatPending = False,
          lastHeartbeatTime = 100000, lastHeartbeatPath = Some ''/blog/a''\<rparr>)
   \<and> \<not> issues_call 101000 ''/blog/a''
        \<lparr>sessionIdRef = Some ''3f2a-9c'', isHeartbeatPending = False,
         lastHeartbeatTime = 100000, lastHeartbeatPath = Some ''/blog/a''\<rparr>
   \<and> sendHeartbeat 101000 ''/blog/a''
        \<lparr>sessionIdRef = Some ''3f2a-9c'', isHeartbeatPending = False,
         lastHeartbeatTime = 100000, lastHeartbeatPath = Some ''/blog/a''\<rparr>
      = (None,
         \<lparr>sessionIdRef = Some ''3f2a-9c'', isHeartbeatPending = False,
          lastHeartbeatTime = 100000, lastHeartbeatPath = Some ''/blog/a''\<rparr>)"
proof -
  let ?r0 = "\<lparr>sessionIdRef = Some ''3f2a-9c'', isHeartbeatPending = False,
         lastHeartbeatTime = 97000, lastHeartbeatPath = Some ''/''\<rparr>"
  let ?r1 = "\<lparr>sessionIdRef = Some ''3f2a-9c'', isHeartbeatPending = True,
         lastHeartbeatTime = 100000, lastHeartbeatPath = Some ''/blog/a''\<rparr>"
  let ?r2 = "\<lparr>sessionIdRef = Some ''3f2a-9c'', isHeartbeatPending = False,
         lastHeartbeatTime = 100000, lastHeartbeatPath = Some ''/blog/a''\<rparr>"
  have f: "\<not> falsy (Some ''3f2a-9c'')" by (simp add: falsy_def)
  note A = sendHeartbeat_guard [where now = 100000 and p = "''/blog/a''" and refs = ?r0
      and result = Rejected and refs' = ?r1]
  note B = sendHeartbeat_guard [where now = 101000 and p = "''/blog/a''" and refs = ?r1
      and result = Rejected and refs' = ?r1]
  note C = sendHeartbeat_guard [where now = 101000 and p = "''/blog/a''" and refs = ?r2
      and result = Rejected and refs' = ?r1]
  have a1: "issues_call 100000 ''/blog/a'' ?r0"
    using A [THEN conjunct1] f by simp
  have a2: "sendHeartbeat 100000 ''/blog/a'' ?r0 = (Some (''3f2a-9c'', ''/blog/a''), ?r1)"
    using A [THEN conjunct2, THEN conjunct1] a1 by simp
  have b1: "\<not> issues_call 101000 ''/blog/a'' ?r1"
    using B [THEN conjunct1] by simp
  have s: "sendHeartbeat_settled Rejected ?r1 = (Fulfilled, ?r2)"
    using A [THEN conjunct2, THEN conjunct2, THEN conjunct2] by simp
  have c1: "\<not> issues_call 101000 ''/blog/a'' ?r2"
    using C [THEN conjunct1] by (simp add: HEARTBEAT_DEBOUNCE_MS_def)
  have c2: "sendHeartbeat 101000 ''/blog/a'' ?r2 = (None, ?r2)"
    using C [THEN conjunct2, THEN conjunct2, THEN conjunct1] c1 by simp
  from f a1 a2 b1 s c1 c2 show ?thesis by blast
qed

text \<open>
  Without a session id no call is issued, although none is pending and nothing was
  sent before: \<open>sendHeartbeat\<close> returns at its first guard, \<open>if (!sessionId) return\<close>.
\<close>

theorem sendHeartbeat_guard_counterexample:
  "\<not> isHeartbeatPending
       \<lparr>sessionIdRef = None, isHeartbeatPending = False, lastHeartbeatTime = 0,
        lastHeartbeatPath = None\<rparr>
   \<and> \<not> (lastHeartbeatPath
           \<lparr>sessionIdRef = None, isHeartbeatPending = False, lastHeartbeatTime = 0,
            lastHeartbeatPath = None\<rparr> = Some ''/''
         \<and> 100000 - lastHeartbeatTime
             \<lparr>sessionIdRef = None, isHeartbeatPending = False, lastHeartbeatTime = 0,
              lastHeartbeatPath = None\<rparr> < HEARTBEAT_DEBOUNCE_MS)
   \<and> \<not> issues_call 100000 ''/''
         \<lparr>sessionIdRef = None, isHeartbeatPending = False, lastHeartbeatTime = 0,
          lastHeartbeatPath = None\<rparr>
   \<and> sendHeartbeat 100000 ''/''
        \<lparr>sessionIdRef = None, isHeartbeatPending = False, lastHeartbeatTime = 0,
         lastHeartbeatPath = None\<rparr>
      = (None,
         \<lparr>sessionIdRef = None, isHeartbeatPending = False, lastHeartbeatTime = 0,
          lastHeartbeatPath = None\<rparr>)"
  by (simp add: issues_call_def sendHeartbeat_def falsy_def)

end
